theory Spec2Isabelle
  imports Main "HOL-Library.Word" "HOL-Library.Multiset" "HOL-Library.Sublist"
begin

section \<open>Node kinds and roles (uast.go)\<close>

text \<open>
  In the Go source \<^verbatim>\<open>NodeType\<close> and \<^verbatim>\<open>Role\<close> are string types with named constants.
  Since \<^verbatim>\<open>AddMappingRule\<close> accepts any \<^verbatim>\<open>NodeType\<close> value, kinds stay strings here too.
\<close>

type_synonym NodeType = string
type_synonym Role = string

definition File :: NodeType where "File = ''File''"
definition Function :: NodeType where "Function = ''Function''"
definition Class :: NodeType where "Class = ''Class''"
definition Method :: NodeType where "Method = ''Method''"
definition Variable :: NodeType where "Variable = ''Variable''"
definition Literal :: NodeType where "Literal = ''Literal''"
definition Expression :: NodeType where "Expression = ''Expression''"
definition Statement :: NodeType where "Statement = ''Statement''"
definition Identifier :: NodeType where "Identifier = ''Identifier''"
definition Comment :: NodeType where "Comment = ''Comment''"
definition Argument :: NodeType where "Argument = ''Argument''"
definition Parameter :: NodeType where "Parameter = ''Parameter''"
definition Return :: NodeType where "Return = ''Return''"
definition Loop :: NodeType where "Loop = ''Loop''"
definition Condition :: NodeType where "Condition = ''Condition''"
definition Assignment :: NodeType where "Assignment = ''Assignment''"
definition Operator :: NodeType where "Operator = ''Operator''"
definition Call :: NodeType where "Call = ''Call''"
definition Import :: NodeType where "Import = ''Import''"
definition Package :: NodeType where "Package = ''Package''"
definition Unknown :: NodeType where "Unknown = ''Unknown''"

definition RoleDeclaration :: Role where "RoleDeclaration = ''Declaration''"
definition RoleDefinition :: Role where "RoleDefinition = ''Definition''"
definition RoleCall :: Role where "RoleCall = ''Call''"
definition RoleReference :: Role where "RoleReference = ''Reference''"
definition RoleImport :: Role where "RoleImport = ''Import''"
definition RoleExport :: Role where "RoleExport = ''Export''"
definition RoleStatement :: Role where "RoleStatement = ''Statement''"
definition RoleExpression :: Role where "RoleExpression = ''Expression''"
definition RoleArgument :: Role where "RoleArgument = ''Argument''"
definition RoleReceiver :: Role where "RoleReceiver = ''Receiver''"
definition RoleCondition :: Role where "RoleCondition = ''Condition''"
definition RoleBody :: Role where "RoleBody = ''Body''"

section \<open>Role inference (convert.go, inferRoles)\<close>

text \<open>
  \<^verbatim>\<open>inferRoles\<close> starts from an empty slice, appends the roles chosen by the
  \<^verbatim>\<open>switch\<close> on the node kind (cases in source order, no default branch), and then
  the role chosen by the \<^verbatim>\<open>if\<close> / \<^verbatim>\<open>else if\<close> on the raw Tree-sitter type string.
\<close>

definition inferRoles :: "NodeType \<Rightarrow> string \<Rightarrow> Role list" where
  "inferRoles nodeType tsType =
     (let roles = [];
          roles =
            (if nodeType = Function \<or> nodeType = Method \<or> nodeType = Class
               then roles @ [RoleDeclaration, RoleDefinition]
             else if nodeType = Call then roles @ [RoleCall]
             else if nodeType = Identifier then roles @ [RoleReference]
             else if nodeType = Import then roles @ [RoleImport]
             else if nodeType = Statement then roles @ [RoleStatement]
             else if nodeType = Expression then roles @ [RoleExpression]
             else if nodeType = Argument then roles @ [RoleArgument]
             else if nodeType = Parameter then roles @ [RoleArgument]
             else if nodeType = Condition then roles @ [RoleCondition]
             else roles);
          roles =
            (if tsType = ''method_receiver'' then roles @ [RoleReceiver]
             else if tsType = ''function_body'' \<or> tsType = ''method_body''
               then roles @ [RoleBody]
             else roles)
      in roles)"

text \<open>
  The rule tables as the specification lists them: kind-derived roles and raw-string-derived
  roles. A key that is not listed contributes no role.
\<close>

definition spec_kind_roles :: "(NodeType \<times> Role list) list" where
  "spec_kind_roles =
     [(Function, [RoleDeclaration, RoleDefinition]),
      (Method, [RoleDeclaration, RoleDefinition]),
      (Class, [RoleDeclaration, RoleDefinition]),
      (Call, [RoleCall]),
      (Identifier, [RoleReference]),
      (Condition, [RoleCondition]),
      (Import, [RoleImport]),
      (Statement, [RoleStatement]),
      (Expression, [RoleExpression]),
      (Argument, [RoleArgument]),
      (Parameter, [RoleArgument])]"

definition spec_raw_roles :: "(string \<times> Role list) list" where
  "spec_raw_roles =
     [(''method_receiver'', [RoleReceiver]),
      (''function_body'', [RoleBody]),
      (''method_body'', [RoleBody])]"

definition table_roles :: "(string \<times> Role list) list \<Rightarrow> string \<Rightarrow> Role list" where
  "table_roles tbl key = (case map_of tbl key of Some rs \<Rightarrow> rs | None \<Rightarrow> [])"

section \<open>The UAST data model (uast.go)\<close>

record Position =
  Line :: "32 word"
  Column :: "32 word"

record Location =
  Start :: Position
  End :: Position

text \<open>
  A \<^verbatim>\<open>Node\<close> owns its children. \<^verbatim>\<open>Children\<close> is a slice of pointers, so an entry may be
  nil (\<open>None\<close>); \<^verbatim>\<open>Location\<close> is a pointer as well. The trees the converter builds and the
  trees the indices are built from are finite and unshared, which is what a datatype value is.
\<close>

datatype Node = Node
  (ID: string)
  (Type: NodeType)
  (Token: string)
  (Roles: "Role list")
  (Children: "Node option list")
  (Properties: "string \<rightharpoonup> string")
  (Location: "Location option")

text \<open>The container. The mutex is left out: the operations below run one at a time.\<close>

record UAST =
  Root :: "Node option"
  Language :: string
  Metadata :: "string \<rightharpoonup> string"
  TypeIndex :: "NodeType \<rightharpoonup> Node list"
  TokenIndex :: "string \<rightharpoonup> Node list"

section \<open>Index construction and lookup (uast.go)\<close>

text \<open>Reading a Go map of slices at a key it does not hold gives the nil slice.\<close>

definition entries :: "('k \<rightharpoonup> Node list) \<Rightarrow> 'k \<Rightarrow> Node list" where
  "entries m k = (case m k of None \<Rightarrow> [] | Some nodes \<Rightarrow> nodes)"

lemma size_Children [termination_simp]:
  "x \<in> set (Children node) \<Longrightarrow> size_option size x < Suc (size node)"
proof -
  assume "x \<in> set (Children node)"
  then have "size_option size x \<le> size_list (size_option size) (Children node)"
    by (rule size_list_estimation') simp
  also have "\<dots> < Suc (size node)"
    by (cases node) simp
  finally show ?thesis .
qed

text \<open>
  The closure \<^verbatim>\<open>build\<close> of \<^verbatim>\<open>buildIndices\<close>: return on nil, append the node to the
  type index under its kind, append it to the token index when its token is not empty, then
  visit the children from left to right. The container it mutates is passed through.
\<close>

fun build :: "Node option \<Rightarrow> UAST \<Rightarrow> UAST" where
  "build None u = u"
| "build (Some node) u =
     (let u = u\<lparr>TypeIndex :=
                 (TypeIndex u)(Type node \<mapsto> entries (TypeIndex u) (Type node) @ [node])\<rparr>;
          u = (if Token node \<noteq> ''''
               then u\<lparr>TokenIndex :=
                        (TokenIndex u)(Token node \<mapsto> entries (TokenIndex u) (Token node) @ [node])\<rparr>
               else u)
      in fold build (Children node) u)"

definition buildIndices :: "UAST \<Rightarrow> UAST" where
  "buildIndices u = build (Root u) (u\<lparr>TypeIndex := Map.empty, TokenIndex := Map.empty\<rparr>)"

definition NewUAST :: "Node option \<Rightarrow> string \<Rightarrow> UAST" where
  "NewUAST root language =
     buildIndices \<lparr>Root = root, Language = language, Metadata = Map.empty,
                   TypeIndex = Map.empty, TokenIndex = Map.empty\<rparr>"

text \<open>Both lookups return a copy of the stored slice, or an empty slice for a missing key.\<close>

definition FindByType :: "UAST \<Rightarrow> NodeType \<Rightarrow> Node list" where
  "FindByType u nodeType = (case TypeIndex u nodeType of Some nodes \<Rightarrow> nodes | None \<Rightarrow> [])"

definition FindByToken :: "UAST \<Rightarrow> string \<Rightarrow> Node list" where
  "FindByToken u token = (case TokenIndex u token of Some nodes \<Rightarrow> nodes | None \<Rightarrow> [])"

definition AddMetadata :: "UAST \<Rightarrow> string \<Rightarrow> string \<Rightarrow> UAST" where
  "AddMetadata u key val = u\<lparr>Metadata := (Metadata u)(key \<mapsto> val)\<rparr>"

text \<open>
  The reference traversal the index claims are compared with: depth-first pre-order, a node
  first, then the subtree of each child in sibling order; nil entries contribute nothing.
\<close>

fun preorder :: "Node option \<Rightarrow> Node list" where
  "preorder None = []"
| "preorder (Some node) = node # concat (map preorder (Children node))"

text \<open>A small tree used to instantiate the theorems: a file with a function and a variable
  around a nil entry.\<close>

definition ex_fn :: Node where
  "ex_fn = Node ''2'' Function ''main'' [RoleDeclaration, RoleDefinition] []
             [''ts_type'' \<mapsto> ''function''] None"

definition ex_var :: Node where
  "ex_var = Node ''3'' Variable ''x'' [] [] [''ts_type'' \<mapsto> ''variable''] None"

definition ex_root :: Node where
  "ex_root = Node ''1'' File '''' [] [Some ex_fn, None, Some ex_var]
               [''ts_type'' \<mapsto> ''program''] None"

section \<open>The CST and the converter (convert.go)\<close>

text \<open>
  Go's \<^verbatim>\<open>int\<close> is taken to be 64 bits wide (the common platforms); it is read as a signed
  number with \<open>sint\<close>. The byte range and the points are \<^verbatim>\<open>int\<close> fields, a point is the
  array \<^verbatim>\<open>[row, column]\<close>. \<^verbatim>\<open>Children\<close> is a slice of pointers and may hold nil entries.
  The input is a finite tree: a CST has no identity and no back-references.
\<close>

type_synonym go_int = "64 word"

datatype TreeSitterNode = TreeSitterNode
  (ts_Type: string)
  (StartByte: go_int)
  (EndByte: go_int)
  (StartPoint: "go_int \<times> go_int")
  (EndPoint: "go_int \<times> go_int")
  (ts_Children: "TreeSitterNode option list")
  (Text: string)

text \<open>
  The two size parameters are only ever compared, never computed with, so they are plain
  integers here.
\<close>

record Converter =
  mappingRules :: "string \<rightharpoonup> NodeType"
  nodeIDCounter :: "64 word"
  parallelThreshold :: int
  maxGoRoutines :: int

definition defaultMappingRules :: "string \<rightharpoonup> NodeType" where
  "defaultMappingRules = map_of
     [(''program'', File),
      (''function'', Function),
      (''function_definition'', Function),
      (''method_definition'', Method),
      (''class_definition'', Class),
      (''class'', Class),
      (''identifier'', Identifier),
      (''variable'', Variable),
      (''string_literal'', Literal),
      (''number_literal'', Literal),
      (''integer_literal'', Literal),
      (''float_literal'', Literal),
      (''boolean_literal'', Literal),
      (''expression'', Expression),
      (''binary_expression'', Expression),
      (''call_expression'', Call),
      (''statement'', Statement),
      (''if_statement'', Condition),
      (''for_statement'', Loop),
      (''while_statement'', Loop),
      (''return_statement'', Return),
      (''import_statement'', Import),
      (''package_declaration'', Package),
      (''comment'', Comment)]"

definition NewConverter :: Converter where
  "NewConverter =
     \<lparr>mappingRules = defaultMappingRules, nodeIDCounter = 0,
      parallelThreshold = 50, maxGoRoutines = 100\<rparr>"

definition SetParallelizationParams :: "Converter \<Rightarrow> int \<Rightarrow> int \<Rightarrow> Converter" where
  "SetParallelizationParams c threshold maxRoutines =
     (let c = (if threshold > 0 then c\<lparr>parallelThreshold := threshold\<rparr> else c);
          c = (if maxRoutines > 0 then c\<lparr>maxGoRoutines := maxRoutines\<rparr> else c)
      in c)"


definition mapNodeType :: "Converter \<Rightarrow> string \<Rightarrow> NodeType" where
  "mapNodeType c tsType = (case mappingRules c tsType of Some nodeType \<Rightarrow> nodeType | None \<Rightarrow> Unknown)"

subsection \<open>Node identities\<close>

text \<open>
  \<^verbatim>\<open>strconv.FormatUint(id, 10)\<close>: the decimal digits of the number, most significant first,
  without leading zeros. \<^verbatim>\<open>atomic.AddUint64\<close> adds one to the 64-bit counter, wrapping around,
  and returns the new value; the call is indivisible, so \<^verbatim>\<open>nextNodeID\<close> is one step on the
  converter's state.
\<close>

definition digit :: "nat \<Rightarrow> char" where
  "digit d = char_of (48 + d)"

fun decimal :: "nat \<Rightarrow> string" where
  "decimal n = (if n < 10 then [digit n] else decimal (n div 10) @ [digit (n mod 10)])"

declare decimal.simps [simp del]

definition FormatUint :: "64 word \<Rightarrow> string" where
  "FormatUint i = decimal (unat i)"

definition nextNodeID :: "Converter \<Rightarrow> string \<times> Converter" where
  "nextNodeID c = (let n = nodeIDCounter c + 1 in (FormatUint n, c\<lparr>nodeIDCounter := n\<rparr>))"

text \<open>The identities handed out by \<open>n\<close> calls in a row, and the converter after them.\<close>

fun issued :: "nat \<Rightarrow> Converter \<Rightarrow> string list \<times> Converter" where
  "issued 0 c = ([], c)"
| "issued (Suc n) c =
     (let (nid, c) = nextNodeID c; (ids, c) = issued n c in (nid # ids, c))"

subsection \<open>Conversion\<close>

text \<open>
  Goroutines of a parallel fan-out run interleaved, and the only state they share is the
  identity counter. What an execution of \<^verbatim>\<open>convertNode\<close> on a subtree does is therefore fixed
  by the order in which the calls of \<^verbatim>\<open>nextNodeID\<close> made for that subtree take effect. The
  conversion is a relation \<open>convertNode c tsNode ids node\<close>: converting \<open>tsNode\<close>, with the
  calls of \<^verbatim>\<open>nextNodeID\<close> made on its behalf returning \<open>ids\<close> in the order they took effect,
  produces \<open>node\<close>. The converter argument is read for its configuration only; the counter
  enters in \<open>Convert\<close>, which requires \<open>ids\<close> to be what the counter issues.

  \<open>interleaved cap running waiting ids\<close> describes the fan-out loop of
  \<^verbatim>\<open>convertChildrenParallel\<close> from a state on: \<open>running\<close> holds, for each goroutine that
  has acquired the semaphore and not released it, the calls it still has to make;
  \<open>waiting\<close> holds the calls of the goroutines the loop has not started yet, in loop
  order; \<open>ids\<close> is the order in which the remaining calls take effect. The loop starts the
  next goroutine only when the semaphore channel of capacity \<open>cap\<close> has room; a goroutine
  that has made all its calls releases the semaphore; \<^verbatim>\<open>wg.Wait()\<close> returns when no goroutine
  is left.
\<close>

inductive interleaved :: "int \<Rightarrow> string list list \<Rightarrow> string list list \<Rightarrow> string list \<Rightarrow> bool" where
  all_done: "interleaved cap [] [] []"
| acquire_go:
    "int (length running) < cap \<Longrightarrow> interleaved cap (running @ [t]) waiting ids
     \<Longrightarrow> interleaved cap running (t # waiting) ids"
| call:
    "i < length running \<Longrightarrow> running ! i = x # rest
     \<Longrightarrow> interleaved cap (running[i := rest]) waiting ids
     \<Longrightarrow> interleaved cap running waiting (x # ids)"
| release:
    "i < length running \<Longrightarrow> running ! i = []
     \<Longrightarrow> interleaved cap (take i running @ drop (Suc i) running) waiting ids
     \<Longrightarrow> interleaved cap running waiting ids"

text \<open>
  \<^verbatim>\<open>convertNode\<close> returns nil for nil. Otherwise it maps the kind, draws the node's identity,
  fills in token, location (each coordinate plus one, converted to \<^verbatim>\<open>uint32\<close>), roles and the
  \<^verbatim>\<open>ts_type\<close> property, and then converts the children: in parallel when their number is above
  the threshold and below 1000, sequentially otherwise.

  \<^verbatim>\<open>convertChildrenSequential\<close> converts the children in order and appends the results that
  are not nil. \<^verbatim>\<open>convertChildrenParallel\<close> makes the semaphore (which panics for a negative
  capacity), skips nil children, starts a goroutine for every other child that writes its
  result into the slot of the child's index (\<open>goroutines\<close> relates the children to the
  calls of each goroutine and to the slots), waits for all of them, and copies the slots
  that are not nil.
\<close>

inductive convertNode :: "Converter \<Rightarrow> TreeSitterNode option \<Rightarrow> string list \<Rightarrow> Node option \<Rightarrow> bool"
  and convertChildrenSequential ::
    "Converter \<Rightarrow> TreeSitterNode option list \<Rightarrow> string list \<Rightarrow> Node option list \<Rightarrow> bool"
  and convertChildrenParallel ::
    "Converter \<Rightarrow> TreeSitterNode option list \<Rightarrow> string list \<Rightarrow> Node option list \<Rightarrow> bool"
  and goroutines ::
    "Converter \<Rightarrow> TreeSitterNode option list \<Rightarrow> string list list \<Rightarrow> Node option list \<Rightarrow> bool"
  for c :: Converter
where
  nil_node: "convertNode c None [] None"
| node_parallel:
    "nodeType = mapNodeType c (ts_Type tsNode)
     \<Longrightarrow> int (length (ts_Children tsNode)) > parallelThreshold c
         \<and> int (length (ts_Children tsNode)) < 1000
     \<Longrightarrow> convertChildrenParallel c (ts_Children tsNode) ids children
     \<Longrightarrow> convertNode c (Some tsNode) (nid # ids)
           (Some (Node nid nodeType (Text tsNode) (inferRoles nodeType (ts_Type tsNode)) children
              [''ts_type'' \<mapsto> ts_Type tsNode]
              (Some \<lparr>Start = \<lparr>Line = ucast (fst (StartPoint tsNode) + 1),
                               Column = ucast (snd (StartPoint tsNode) + 1)\<rparr>,
                      End = \<lparr>Line = ucast (fst (EndPoint tsNode) + 1),
                             Column = ucast (snd (EndPoint tsNode) + 1)\<rparr>\<rparr>)))"
| node_sequential:
    "nodeType = mapNodeType c (ts_Type tsNode)
     \<Longrightarrow> \<not> (int (length (ts_Children tsNode)) > parallelThreshold c
            \<and> int (length (ts_Children tsNode)) < 1000)
     \<Longrightarrow> convertChildrenSequential c (ts_Children tsNode) ids children
     \<Longrightarrow> convertNode c (Some tsNode) (nid # ids)
           (Some (Node nid nodeType (Text tsNode) (inferRoles nodeType (ts_Type tsNode)) children
              [''ts_type'' \<mapsto> ts_Type tsNode]
              (Some \<lparr>Start = \<lparr>Line = ucast (fst (StartPoint tsNode) + 1),
                               Column = ucast (snd (StartPoint tsNode) + 1)\<rparr>,
                      End = \<lparr>Line = ucast (fst (EndPoint tsNode) + 1),
                             Column = ucast (snd (EndPoint tsNode) + 1)\<rparr>\<rparr>)))"
| sequential_done: "convertChildrenSequential c [] [] []"
| sequential_step:
    "convertNode c child ids childNode
     \<Longrightarrow> convertChildrenSequential c children ids' result
     \<Longrightarrow> convertChildrenSequential c (child # children) (ids @ ids')
           (case childNode of None \<Rightarrow> result | Some n \<Rightarrow> Some n # result)"
| parallel:
    "0 \<le> maxGoRoutines c
     \<Longrightarrow> goroutines c children calls result
     \<Longrightarrow> interleaved (maxGoRoutines c) [] calls ids
     \<Longrightarrow> convertChildrenParallel c children ids (filter (\<lambda>node. node \<noteq> None) result)"
| no_children: "goroutines c [] [] []"
| skip_nil:
    "goroutines c children calls result
     \<Longrightarrow> goroutines c (None # children) calls (None # result)"
| spawn:
    "convertNode c (Some child) ids childNode
     \<Longrightarrow> goroutines c children calls result
     \<Longrightarrow> goroutines c (Some child # children) (ids # calls) (childNode # result)"


text \<open>
  \<^verbatim>\<open>Convert\<close> rejects a nil root. Otherwise it converts the root and wraps the result into a
  new container; the identities used are the ones the counter issued meanwhile. The last
  argument is the converter after the call.
\<close>

datatype error = Errorf string

inductive Convert :: "Converter \<Rightarrow> TreeSitterNode option \<Rightarrow> string \<Rightarrow> error + UAST \<Rightarrow> Converter \<Rightarrow> bool" where
  nil_root: "Convert c None language (Inl (Errorf ''root node cannot be nil'')) c"
| converted:
    "convertNode c (Some root) ids uastRoot \<Longrightarrow> issued (length ids) c = (ids, c')
     \<Longrightarrow> Convert c (Some root) language (Inr (NewUAST uastRoot language)) c'"



subsection \<open>Notions used to state the conversion claims\<close>

lemma size_ts_Children [termination_simp]:
  "x \<in> set (ts_Children tsNode) \<Longrightarrow> size_option size x < Suc (size tsNode)"
proof -
  assume "x \<in> set (ts_Children tsNode)"
  then have "size_option size x \<le> size_list (size_option size) (ts_Children tsNode)"
    by (rule size_list_estimation') simp
  also have "\<dots> < Suc (size tsNode)"
    by (cases tsNode) simp
  finally show ?thesis .
qed

text \<open>The CST nodes in depth-first pre-order, nil entries left out.\<close>

fun cst_preorder :: "TreeSitterNode option \<Rightarrow> TreeSitterNode list" where
  "cst_preorder None = []"
| "cst_preorder (Some tsNode) = tsNode # concat (map cst_preorder (ts_Children tsNode))"

text \<open>The non-nil entries of a slice of pointers, in order.\<close>

fun present :: "'a option list \<Rightarrow> 'a list" where
  "present [] = []"
| "present (None # xs) = present xs"
| "present (Some x # xs) = x # present xs"

text \<open>The location \<^verbatim>\<open>convertNode\<close> computes for a CST node.\<close>

definition truncated_location :: "TreeSitterNode \<Rightarrow> Location" where
  "truncated_location tsNode =
     \<lparr>Start = \<lparr>Line = ucast (fst (StartPoint tsNode) + 1),
                Column = ucast (snd (StartPoint tsNode) + 1)\<rparr>,
      End = \<lparr>Line = ucast (fst (EndPoint tsNode) + 1),
              Column = ucast (snd (EndPoint tsNode) + 1)\<rparr>\<rparr>"

text \<open>
  The claim about positions, as stated: line and column are the row and column plus one, as
  numbers. A coordinate can meet this only when it plus one is a \<^verbatim>\<open>uint32\<close> value.
\<close>

definition exact_position :: "go_int \<times> go_int \<Rightarrow> Position \<Rightarrow> bool" where
  "exact_position p q \<longleftrightarrow>
     uint (Line q) = sint (fst p) + 1 \<and> uint (Column q) = sint (snd p) + 1"

definition exact_location :: "TreeSitterNode \<Rightarrow> Node \<Rightarrow> bool" where
  "exact_location tsNode node =
     (case Location node of
        None \<Rightarrow> False
      | Some l \<Rightarrow> exact_position (StartPoint tsNode) (Start l)
                \<and> exact_position (EndPoint tsNode) (End l))"

definition fits_uint32 :: "go_int \<Rightarrow> bool" where
  "fits_uint32 r \<longleftrightarrow> - 1 \<le> sint r \<and> sint r < 2 ^ 32 - 1"

definition positions_fit :: "TreeSitterNode \<Rightarrow> bool" where
  "positions_fit tsNode \<longleftrightarrow>
     fits_uint32 (fst (StartPoint tsNode)) \<and> fits_uint32 (snd (StartPoint tsNode)) \<and>
     fits_uint32 (fst (EndPoint tsNode)) \<and> fits_uint32 (snd (EndPoint tsNode))"

definition located :: "TreeSitterNode \<Rightarrow> Node \<Rightarrow> bool" where
  "located tsNode node \<longleftrightarrow>
     Location node = Some (truncated_location tsNode)
     \<and> exact_location tsNode node = positions_fit tsNode"

text \<open>
  A tree with the identity of every node blanked, and the tree the conversion builds up to
  identities: the sequential algorithm without the counter.
\<close>

fun forget :: "Node option \<Rightarrow> Node option" where
  "forget None = None"
| "forget (Some n) =
     Some (Node [] (Type n) (Token n) (Roles n) (map forget (Children n)) (Properties n)
             (Location n))"

fun skeleton :: "Converter \<Rightarrow> TreeSitterNode option \<Rightarrow> Node option" where
  "skeleton c None = None"
| "skeleton c (Some tsNode) =
     (let nodeType = mapNodeType c (ts_Type tsNode);
          children = filter (\<lambda>node. node \<noteq> None) (map (skeleton c) (ts_Children tsNode))
      in Some (Node [] nodeType (Text tsNode) (inferRoles nodeType (ts_Type tsNode)) children
                 [''ts_type'' \<mapsto> ts_Type tsNode] (Some (truncated_location tsNode))))"

definition kind_token_location :: "Node option \<Rightarrow> (NodeType \<times> string \<times> Location option) option" where
  "kind_token_location = map_option (\<lambda>n. (Type n, Token n, Location n))"

text \<open>
  The identities the counter issues from the value \<open>ctr\<close> on, and the number a decimal
  string denotes.
\<close>

primrec tickets :: "64 word \<Rightarrow> nat \<Rightarrow> string list" where
  "tickets ctr 0 = []"
| "tickets ctr (Suc n) = FormatUint (ctr + 1) # tickets (ctr + 1) n"

definition undecimal :: "string \<Rightarrow> nat" where
  "undecimal s = foldl (\<lambda>a ch. 10 * a + (of_char ch - 48)) 0 s"

subsection \<open>Example inputs\<close>

text \<open>
  A program node with a function, a nil entry and an identifier as children; a converter
  whose threshold makes that node fan out; and a node on row 4294967295.
\<close>

definition cst_A :: TreeSitterNode where
  "cst_A = TreeSitterNode ''function'' 0 10 (0, 0) (2, 1) [] ''main''"

definition cst_B :: TreeSitterNode where
  "cst_B = TreeSitterNode ''identifier'' 11 12 (3, 4) (3, 5) [] ''x''"

definition cst_R :: TreeSitterNode where
  "cst_R = TreeSitterNode ''program'' 0 12 (0, 0) (4, 0) [Some cst_A, None, Some cst_B] ''''"

definition cst_far :: TreeSitterNode where
  "cst_far = TreeSitterNode ''identifier'' 0 1 (4294967295, 0) (4294967295, 1) [] ''x''"

definition par_converter :: Converter where
  "par_converter = SetParallelizationParams NewConverter 1 4"

text \<open>The node \<^verbatim>\<open>convertNode\<close> builds from an identity, a kind, a CST node and children.\<close>

definition uast_of :: "string \<Rightarrow> NodeType \<Rightarrow> TreeSitterNode \<Rightarrow> Node option list \<Rightarrow> Node" where
  "uast_of nid nodeType tsNode children =
     Node nid nodeType (Text tsNode) (inferRoles nodeType (ts_Type tsNode)) children
       [''ts_type'' \<mapsto> ts_Type tsNode]
       (Some \<lparr>Start = \<lparr>Line = ucast (fst (StartPoint tsNode) + 1),
                        Column = ucast (snd (StartPoint tsNode) + 1)\<rparr>,
               End = \<lparr>Line = ucast (fst (EndPoint tsNode) + 1),
                      Column = ucast (snd (EndPoint tsNode) + 1)\<rparr>\<rparr>)"

section \<open>Paths and common ancestors (utils.go)\<close>

text \<open>
  \<^verbatim>\<open>GetCommonAncestor\<close> and \<^verbatim>\<open>buildPathTo\<close> compare nodes by pointer and must cope with
  structures they did not build, also cyclic ones. Here nodes are objects in a store and a
  \<^verbatim>\<open>*Node\<close> is nil (\<open>None\<close>) or the address of an object, its index in the store. Go has no
  dangling pointers; an address outside the store is treated like nil.
\<close>

type_synonym pointer = "nat option"

record NodeObject =
  obj_ID :: string
  obj_Type :: NodeType
  obj_Token :: string
  obj_Roles :: "Role list"
  obj_Children :: "pointer list"
  obj_Properties :: "string \<rightharpoonup> string"
  obj_Location :: "Location option"

type_synonym store = "NodeObject list"

definition is_nil :: "store \<Rightarrow> pointer \<Rightarrow> bool" where
  "is_nil h p = (case p of None \<Rightarrow> True | Some r \<Rightarrow> length h \<le> r)"

text \<open>
  \<^verbatim>\<open>buildPathToHelper\<close> with its loop over the children. The map \<^verbatim>\<open>visited\<close> is shared by
  all calls of one search, so it is passed in and returned; a nil slice is \<open>None\<close>. The
  loop returns the first path a child yields, with the current node put in front.
\<close>

function buildPathToHelper ::
    "store \<Rightarrow> pointer \<Rightarrow> pointer \<Rightarrow> string set \<Rightarrow> nat list option \<times> string set"
  and childrenLoop ::
    "store \<Rightarrow> pointer \<Rightarrow> nat \<Rightarrow> pointer list \<Rightarrow> string set \<Rightarrow> nat list option \<times> string set"
where
  "buildPathToHelper h target current visited =
     (case current of
        None \<Rightarrow> (None, visited)
      | Some r \<Rightarrow>
          if length h \<le> r then (None, visited)
          else if obj_ID (h ! r) \<in> visited then (None, visited)
          else if current = target then (Some [r], insert (obj_ID (h ! r)) visited)
          else childrenLoop h target r (obj_Children (h ! r)) (insert (obj_ID (h ! r)) visited))"
| "childrenLoop h target r [] visited = (None, visited)"
| "childrenLoop h target r (child # children) visited =
     (case buildPathToHelper h target child visited of
        (Some path, visited') \<Rightarrow> (Some (r # path), visited')
      | (None, visited') \<Rightarrow> childrenLoop h target r children visited')"
  by pat_completeness auto

text \<open>
  Termination: a call that goes on to the children has marked an identity of the store
  that was not marked before, and no call removes a mark; so the number of unmarked
  identities of the store, and then the number of children still to visit, decrease.
\<close>

definition unvisited :: "store \<Rightarrow> string set \<Rightarrow> nat" where
  "unvisited h visited = card (obj_ID ` set h - visited)"

lemma visited_grows:
  "buildPathToHelper_childrenLoop_dom (Inl (h, target, current, visited)) \<Longrightarrow>
     visited \<subseteq> snd (buildPathToHelper h target current visited)"
  "buildPathToHelper_childrenLoop_dom (Inr (h, target, r, children, visited)) \<Longrightarrow>
     visited \<subseteq> snd (childrenLoop h target r children visited)"
proof (induction rule: buildPathToHelper_childrenLoop.pinduct)
  case (1 h target current visited)
  then show ?case
    by (auto simp: buildPathToHelper.psimps split: option.splits)
next
  case (2 h target r visited)
  then show ?case by (simp add: childrenLoop.psimps)
next
  case (3 h target r child children visited)
  obtain p v where e: "(p, v) = buildPathToHelper h target child visited"
    by (metis surj_pair)
  with "3.IH"(1) have 1: "visited \<subseteq> v"
    by (metis snd_conv)
  show ?case
  proof (cases p)
    case None
    from "3.IH"(2) [OF e None] have "v \<subseteq> snd (childrenLoop h target r children v)" .
    with 1 None e [symmetric] "3.hyps" show ?thesis
      by (simp add: childrenLoop.psimps)
  next
    case (Some path)
    with 1 e [symmetric] "3.hyps" show ?thesis
      by (simp add: childrenLoop.psimps)
  qed
qed

lemma unvisited_insert:
  "r < length h \<Longrightarrow> obj_ID (h ! r) \<notin> visited \<Longrightarrow>
   unvisited h (insert (obj_ID (h ! r)) visited) < unvisited h visited"
  unfolding unvisited_def
  by (rule psubset_card_mono) auto

lemma unvisited_mono: "visited \<subseteq> visited' \<Longrightarrow> unvisited h visited' \<le> unvisited h visited"
  unfolding unvisited_def by (rule card_mono) auto

lemma search_terminates: "All buildPathToHelper_childrenLoop_dom"
proof (relation "inv_image (less_than <*lex*> less_than)
    (\<lambda>x. case x of
       Inl (h, target, current, visited) \<Rightarrow> (unvisited h visited, 0)
     | Inr (h, target, r, children, visited) \<Rightarrow> (unvisited h visited, Suc (length children)))",
    goal_cases)
  case 1
  show ?case by (intro wf_inv_image wf_lex_prod wf_less_than)
next
  case (2 h target current visited r)
  then show ?case by (simp add: unvisited_insert)
next
  case (3 h target r child children visited)
  show ?case by simp
next
  case (4 h target r child children visited x y)
  from visited_grows(1) [OF 4(3)] 4(1) have "visited \<subseteq> y"
    by (metis snd_conv)
  then have "unvisited h y \<le> unvisited h visited"
    by (rule unvisited_mono)
  then show ?case by auto
qed

termination buildPathToHelper
  by (rule search_terminates)

declare buildPathToHelper.simps [simp del]


text \<open>\<^verbatim>\<open>buildPathTo\<close>: the root-relative path of \<open>target\<close>, searched from \<open>current\<close>.\<close>

definition buildPathTo :: "store \<Rightarrow> pointer \<Rightarrow> pointer \<Rightarrow> nat list option" where
  "buildPathTo h target current =
     (case current of
        None \<Rightarrow> None
      | Some r \<Rightarrow>
          if length h \<le> r \<or> is_nil h target then None
          else if current = target then Some [r]
          else fst (buildPathToHelper h target current {}))"


text \<open>
  The first loop of \<^verbatim>\<open>GetCommonAncestor\<close> fills the map \<^verbatim>\<open>nodePaths\<close>, keyed by node
  identity: nil nodes are skipped, and a node contributes its path when the path is not
  empty.
\<close>

definition recordPath :: "store \<Rightarrow> pointer \<Rightarrow> (string \<rightharpoonup> nat list) \<Rightarrow> pointer \<Rightarrow> (string \<rightharpoonup> nat list)" where
  "recordPath h root nodePaths node =
     (case node of
        None \<Rightarrow> nodePaths
      | Some r \<Rightarrow>
          if length h \<le> r then nodePaths
          else (case buildPathTo h node root of
                  None \<Rightarrow> nodePaths
                | Some path \<Rightarrow>
                    if length path > 0 then nodePaths(obj_ID (h ! r) \<mapsto> path) else nodePaths))"

definition nodePaths :: "store \<Rightarrow> pointer list \<Rightarrow> pointer \<Rightarrow> (string \<rightharpoonup> nat list)" where
  "nodePaths h nodes root = foldl (recordPath h root) Map.empty nodes"


text \<open>
  Go enumerates a map in an unspecified order. \<open>ranges m paths\<close>: \<open>paths\<close> is a sequence
  in which \<^verbatim>\<open>range\<close> may yield the values of \<open>m\<close>, one for each key.
\<close>

definition ranges :: "(string \<rightharpoonup> nat list) \<Rightarrow> nat list list \<Rightarrow> bool" where
  "ranges m paths \<longleftrightarrow>
     (\<exists>keys. distinct keys \<and> set keys = dom m \<and> paths = map (\<lambda>k. the (m k)) keys)"


text \<open>The second loop: the first path of least length in enumeration order.\<close>

fun shortestOf :: "nat list list \<Rightarrow> int \<times> nat list \<Rightarrow> int \<times> nat list" where
  "shortestOf [] s = s"
| "shortestOf (path # paths) (shortestLen, shortestPath) =
     shortestOf paths
       (if shortestLen = - 1 \<or> int (length path) < shortestLen
        then (int (length path), path) else (shortestLen, shortestPath))"


text \<open>
  The third loop, from index \<open>i\<close> on: the candidate is the node of the shortest path at
  \<open>i\<close>; it becomes the common ancestor when every path has it at \<open>i\<close>, otherwise the loop
  ends.
\<close>

function comparePaths :: "nat list list \<Rightarrow> int \<Rightarrow> nat list \<Rightarrow> nat \<Rightarrow> pointer \<Rightarrow> pointer" where
  "comparePaths paths shortestLen shortestPath i commonAncestor =
     (if int i < shortestLen
      then (let current = shortestPath ! i;
                isCommon = list_all (\<lambda>path. \<not> (length path \<le> i \<or> path ! i \<noteq> current)) paths
            in if isCommon
               then comparePaths paths shortestLen shortestPath (Suc i) (Some current)
               else commonAncestor)
      else commonAncestor)"
  by pat_completeness auto
termination
  by (relation "measure (\<lambda>(paths, shortestLen, shortestPath, i, commonAncestor). nat shortestLen - i)") auto

declare comparePaths.simps [simp del]


text \<open>
  \<^verbatim>\<open>GetCommonAncestor\<close>, one rule for each \<^verbatim>\<open>return\<close>. It is a relation because the
  enumeration order of the map is not determined.
\<close>

inductive GetCommonAncestor :: "store \<Rightarrow> pointer list \<Rightarrow> pointer \<Rightarrow> pointer \<Rightarrow> bool" where
  no_nodes: "length nodes = 0 \<Longrightarrow> GetCommonAncestor h nodes root None"
| one_node: "length nodes = 1 \<Longrightarrow> GetCommonAncestor h nodes root (nodes ! 0)"
| nil_root:
    "length nodes \<noteq> 0 \<Longrightarrow> length nodes \<noteq> 1 \<Longrightarrow> is_nil h root
     \<Longrightarrow> GetCommonAncestor h nodes root None"
| no_paths:
    "length nodes \<noteq> 0 \<Longrightarrow> length nodes \<noteq> 1 \<Longrightarrow> \<not> is_nil h root
     \<Longrightarrow> dom (nodePaths h nodes root) = {}
     \<Longrightarrow> GetCommonAncestor h nodes root None"
| compared:
    "length nodes \<noteq> 0 \<Longrightarrow> length nodes \<noteq> 1 \<Longrightarrow> \<not> is_nil h root
     \<Longrightarrow> dom (nodePaths h nodes root) \<noteq> {}
     \<Longrightarrow> ranges (nodePaths h nodes root) paths
     \<Longrightarrow> shortestOf paths (- 1, []) = (shortestLen, shortestPath)
     \<Longrightarrow> GetCommonAncestor h nodes root (comparePaths paths shortestLen shortestPath 0 None)"


subsection \<open>Notions used to state the path claims\<close>

text \<open>
  The node at the last position of the longest prefix that all given paths share; absent
  when there is no path.
\<close>

definition ancestor_of_paths :: "nat list set \<Rightarrow> pointer" where
  "ancestor_of_paths P =
     (if P = {} then None
      else case Longest_common_prefix P of [] \<Rightarrow> None | p # ps \<Rightarrow> Some (last (p # ps)))"




definition cyclic_store :: store where
  "cyclic_store =
     [\<lparr>obj_ID = ''1'', obj_Type = File, obj_Token = '''', obj_Roles = [],
       obj_Children = [Some 1], obj_Properties = Map.empty, obj_Location = None\<rparr>,
      \<lparr>obj_ID = ''2'', obj_Type = Function, obj_Token = ''f'', obj_Roles = [],
       obj_Children = [Some 0], obj_Properties = Map.empty, obj_Location = None\<rparr>,
      \<lparr>obj_ID = ''3'', obj_Type = Identifier, obj_Token = ''x'', obj_Roles = [],
       obj_Children = [], obj_Properties = Map.empty, obj_Location = None\<rparr>]"

definition anonymous_store :: store where
  "anonymous_store =
     [\<lparr>obj_ID = '''', obj_Type = File, obj_Token = '''', obj_Roles = [],
       obj_Children = [Some 1, Some 2], obj_Properties = Map.empty, obj_Location = None\<rparr>,
      \<lparr>obj_ID = '''', obj_Type = Function, obj_Token = ''f'', obj_Roles = [],
       obj_Children = [Some 3], obj_Properties = Map.empty, obj_Location = None\<rparr>,
      \<lparr>obj_ID = '''', obj_Type = Variable, obj_Token = ''b'', obj_Roles = [],
       obj_Children = [], obj_Properties = Map.empty, obj_Location = None\<rparr>,
      \<lparr>obj_ID = '''', obj_Type = Identifier, obj_Token = ''x'', obj_Roles = [],
       obj_Children = [], obj_Properties = Map.empty, obj_Location = None\<rparr>]"

section \<open>Properties of role inference\<close>

lemmas NodeType_defs =
  File_def Function_def Class_def Method_def Variable_def Literal_def Expression_def
  Statement_def Identifier_def Comment_def Argument_def Parameter_def Return_def Loop_def
  Condition_def Assignment_def Operator_def Call_def Import_def Package_def Unknown_def

lemmas Role_defs =
  RoleDeclaration_def RoleDefinition_def RoleCall_def RoleReference_def RoleImport_def
  RoleExport_def RoleStatement_def RoleExpression_def RoleArgument_def RoleReceiver_def
  RoleCondition_def RoleBody_def

lemma inferRoles_tables:
  "inferRoles k raw = table_roles spec_kind_roles k @ table_roles spec_raw_roles raw"
  by (simp add: inferRoles_def table_roles_def spec_kind_roles_def spec_raw_roles_def
      NodeType_defs Role_defs)

lemma inferRoles_distinct: "distinct (inferRoles k raw)"
  by (simp add: inferRoles_def NodeType_defs Role_defs)

text \<open>
  Claim C7. For every kind and every raw type string, \<^verbatim>\<open>inferRoles\<close> returns the roles the
  kind table gives for the kind, followed by the roles the raw-string table gives for the raw
  type; the result never repeats a role; and both tables can contribute to the same node, as
  for a node of kind Function whose raw type is \<^verbatim>\<open>function_body\<close>.
\<close>

theorem inferRoles_kind_then_raw_no_duplicates:
  "inferRoles k raw = table_roles spec_kind_roles k @ table_roles spec_raw_roles raw
   \<and> distinct (inferRoles k raw)
   \<and> inferRoles Function ''function_body'' = [RoleDeclaration, RoleDefinition, RoleBody]
   \<and> inferRoles Method ''method_receiver'' = [RoleDeclaration, RoleDefinition, RoleReceiver]"
proof -
  have both: "inferRoles Function ''function_body'' = [RoleDeclaration, RoleDefinition, RoleBody]"
    by (simp add: inferRoles_def NodeType_defs)
  have recv: "inferRoles Method ''method_receiver'' = [RoleDeclaration, RoleDefinition, RoleReceiver]"
    by (simp add: inferRoles_def NodeType_defs)
  from inferRoles_tables inferRoles_distinct both recv show ?thesis by blast
qed
section \<open>Properties of the indices\<close>

lemma entries_upd: "entries (m(k \<mapsto> xs)) k' = (if k' = k then xs else entries m k')"
  by (simp add: entries_def)

lemma TypeIndex_fold_build:
  assumes "\<And>x u. x \<in> set xs \<Longrightarrow>
             entries (TypeIndex (build x u)) k =
             entries (TypeIndex u) k @ filter (\<lambda>n. Type n = k) (preorder x)"
  shows "entries (TypeIndex (fold build xs u)) k =
         entries (TypeIndex u) k @ filter (\<lambda>n. Type n = k) (concat (map preorder xs))"
  using assms by (induction xs arbitrary: u) auto

lemma TypeIndex_build:
  "entries (TypeIndex (build x u)) k =
   entries (TypeIndex u) k @ filter (\<lambda>n. Type n = k) (preorder x)"
proof (induction x u rule: build.induct)
  case (1 u)
  show ?case by simp
next
  case (2 node u)
  show ?case
    by (simp add: Let_def TypeIndex_fold_build [OF "2.IH" [OF refl refl]] entries_upd)
qed

lemma TokenIndex_fold_build:
  assumes "\<And>x u. x \<in> set xs \<Longrightarrow>
             entries (TokenIndex (build x u)) t =
             entries (TokenIndex u) t @ filter (\<lambda>n. Token n = t \<and> Token n \<noteq> []) (preorder x)"
  shows "entries (TokenIndex (fold build xs u)) t =
         entries (TokenIndex u) t @
         filter (\<lambda>n. Token n = t \<and> Token n \<noteq> []) (concat (map preorder xs))"
  using assms by (induction xs arbitrary: u) auto

lemma TokenIndex_build:
  "entries (TokenIndex (build x u)) t =
   entries (TokenIndex u) t @ filter (\<lambda>n. Token n = t \<and> Token n \<noteq> []) (preorder x)"
proof (induction x u rule: build.induct)
  case (1 u)
  show ?case by simp
next
  case (2 node u)
  show ?case
    by (auto simp add: Let_def TokenIndex_fold_build [OF "2.IH" [OF refl refl]] entries_upd)
qed

lemma fields_fold_build:
  assumes "\<And>x u. x \<in> set xs \<Longrightarrow>
             Root (build x u) = Root u \<and> Language (build x u) = Language u \<and>
             Metadata (build x u) = Metadata u"
  shows "Root (fold build xs u) = Root u \<and> Language (fold build xs u) = Language u \<and>
         Metadata (fold build xs u) = Metadata u"
  using assms by (induction xs arbitrary: u) auto

lemma fields_build:
  "Root (build x u) = Root u \<and> Language (build x u) = Language u \<and>
   Metadata (build x u) = Metadata u"
proof (induction x u rule: build.induct)
  case (1 u)
  show ?case by simp
next
  case (2 node u)
  show ?case
    by (simp add: Let_def fields_fold_build [OF "2.IH" [OF refl refl]])
qed

lemma Root_NewUAST: "Root (NewUAST root language) = root"
  by (simp add: NewUAST_def buildIndices_def fields_build)

lemma FindByType_NewUAST:
  "FindByType (NewUAST root language) k = filter (\<lambda>n. Type n = k) (preorder root)"
proof -
  have "FindByType (NewUAST root language) k = entries (TypeIndex (NewUAST root language)) k"
    by (simp add: FindByType_def entries_def)
  then show ?thesis
    by (simp add: NewUAST_def buildIndices_def TypeIndex_build) (simp add: entries_def)
qed

lemma FindByToken_NewUAST:
  "FindByToken (NewUAST root language) t =
   filter (\<lambda>n. Token n = t \<and> Token n \<noteq> []) (preorder root)"
proof -
  have "FindByToken (NewUAST root language) t = entries (TokenIndex (NewUAST root language)) t"
    by (simp add: FindByToken_def entries_def)
  then show ?thesis
    by (simp add: NewUAST_def buildIndices_def TokenIndex_build) (simp add: entries_def)
qed


lemma sum_filter_by_key:
  "(\<Sum>k\<in>f ` set xs. mset (filter (\<lambda>x. f x = k) xs)) = mset xs"
proof (rule multiset_eqI)
  fix x
  have "count (\<Sum>k\<in>f ` set xs. mset (filter (\<lambda>x. f x = k) xs)) x =
        (\<Sum>k\<in>f ` set xs. if f x = k then count (mset xs) x else 0)"
    by (simp add: count_sum mset_filter)
  also have "\<dots> = (if f x \<in> f ` set xs then count (mset xs) x else 0)"
    by (simp add: sum.delta)
  also have "\<dots> = count (mset xs) x"
    by (auto simp: count_eq_zero_iff)
  finally show "count (\<Sum>k\<in>f ` set xs. mset (filter (\<lambda>x. f x = k) xs)) x = count (mset xs) x" .
qed

lemma count_list_filter:
  "count_list (filter P xs) x = (if P x then count_list xs x else 0)"
  by (induction xs) auto

lemma distinct_count_list:
  "distinct xs \<Longrightarrow> x \<in> set xs \<Longrightarrow> count_list xs x = 1"
  by (induction xs) (auto simp: count_list_0_iff)

lemma distinct_by_ID: "distinct (map ID xs) \<Longrightarrow> distinct xs"
  by (rule distinct_map [THEN iffD1, THEN conjunct1])

text \<open>
  Claim C10. \<^verbatim>\<open>FindByType\<close> and \<^verbatim>\<open>FindByToken\<close> list the matching nodes in depth-first
  pre-order of the tree: the result is the pre-order traversal with the other nodes left out.
  Said without the traversal: the result for a tree is its root, when the root matches,
  followed by the results for the subtrees of its children, one after the other in sibling
  order.
\<close>

theorem indices_list_nodes_in_preorder:
  "FindByType (NewUAST root language) k = filter (\<lambda>n. Type n = k) (preorder root)
   \<and> FindByToken (NewUAST root language) t =
       filter (\<lambda>n. Token n = t \<and> Token n \<noteq> []) (preorder root)
   \<and> FindByType (NewUAST (Some node) language) k =
       (if Type node = k then [node] else []) @
       concat (map (\<lambda>child. FindByType (NewUAST child language) k) (Children node))
   \<and> FindByToken (NewUAST (Some node) language) t =
       (if Token node = t \<and> Token node \<noteq> [] then [node] else []) @
       concat (map (\<lambda>child. FindByToken (NewUAST child language) t) (Children node))"
  by (simp add: FindByType_NewUAST FindByToken_NewUAST filter_concat comp_def)

theorem indices_list_nodes_in_preorder_witness:
  "FindByType (NewUAST (Some ex_root) ''go'') Variable = [ex_var]
   \<and> FindByToken (NewUAST (Some ex_root) ''go'') ''main'' = [ex_fn]
   \<and> preorder (Some ex_root) = [ex_root, ex_fn, ex_var]"
proof -
  have p: "preorder (Some ex_root) = [ex_root, ex_fn, ex_var]"
    by (simp add: ex_root_def ex_fn_def ex_var_def)
  have k: "Type ex_root \<noteq> Variable" "Type ex_fn \<noteq> Variable" "Type ex_var = Variable"
    by (simp_all add: ex_root_def ex_fn_def ex_var_def NodeType_defs)
  have t: "Token ex_root \<noteq> ''main''" "Token ex_fn = ''main''" "Token ex_var \<noteq> ''main''"
    by (simp_all add: ex_root_def ex_fn_def ex_var_def)
  note T = indices_list_nodes_in_preorder [of "Some ex_root" "''go''" Variable "''main''" ex_root]
  have a: "FindByType (NewUAST (Some ex_root) ''go'') Variable = [ex_var]"
    unfolding T [THEN conjunct1] p by (simp add: k)
  have b: "FindByToken (NewUAST (Some ex_root) ''go'') ''main'' = [ex_fn]"
    unfolding T [THEN conjunct2, THEN conjunct1] p by (simp add: t)
  from a b p show ?thesis by (intro conjI)
qed
section \<open>Properties of the conversion\<close>

lemma preorder_nonnil:
  "concat (map preorder (filter (\<lambda>node. node \<noteq> None) xs)) = concat (map preorder xs)"
  by (induction xs) auto

lemma preorder_appended:
  "concat (map preorder (case x of None \<Rightarrow> xs | Some n \<Rightarrow> Some n # xs)) =
   preorder x @ concat (map preorder xs)"
  by (cases x) auto

lemma convert_pairs:
  fixes R :: "TreeSitterNode \<Rightarrow> Node \<Rightarrow> bool"
  assumes R: "\<And>tsNode nid children.
     R tsNode (Node nid (mapNodeType c (ts_Type tsNode)) (Text tsNode)
        (inferRoles (mapNodeType c (ts_Type tsNode)) (ts_Type tsNode)) children
        [''ts_type'' \<mapsto> ts_Type tsNode] (Some (truncated_location tsNode)))"
  shows "convertNode c t ids n \<Longrightarrow> list_all2 R (cst_preorder t) (preorder n)"
    and "convertChildrenSequential c cs ids1 ks1 \<Longrightarrow>
            list_all2 R (concat (map cst_preorder cs)) (concat (map preorder ks1))"
    and "convertChildrenParallel c cs ids2 ks2 \<Longrightarrow>
            list_all2 R (concat (map cst_preorder cs)) (concat (map preorder ks2))"
    and "goroutines c cs calls slots \<Longrightarrow>
            list_all2 R (concat (map cst_preorder cs)) (concat (map preorder slots))"
proof (induction rule: convertNode_convertChildrenSequential_convertChildrenParallel_goroutines.inducts)
  case nil_node
  show ?case by simp
next
  case (node_parallel nodeType tsNode ids children nid)
  then show ?case using R by (simp add: truncated_location_def)
next
  case (node_sequential nodeType tsNode ids children nid)
  then show ?case using R by (simp add: truncated_location_def)
next
  case sequential_done
  show ?case by simp
next
  case (sequential_step child ids childNode children ids' result)
  then show ?case by (simp add: preorder_appended list_all2_appendI)
next
  case (parallel children calls result ids)
  then show ?case unfolding preorder_nonnil by simp
next
  case no_children
  show ?case by simp
next
  case (skip_nil children calls result)
  then show ?case by simp
next
  case (spawn child ids childNode children calls result)
  then show ?case by (simp add: list_all2_appendI del: cst_preorder.simps)
qed

lemma undecimal_snoc: "undecimal (s @ [ch]) = 10 * undecimal s + (of_char ch - 48)"
  by (simp add: undecimal_def)

lemma undecimal_digit: "d < 10 \<Longrightarrow> undecimal [digit d] = d"
  by (simp add: undecimal_def digit_def)

lemma undecimal_decimal: "undecimal (decimal n) = n"
proof (induction n rule: decimal.induct)
  case (1 n)
  show ?case
  proof (cases "n < 10")
    case True
    then show ?thesis by (subst decimal.simps) (simp add: undecimal_digit)
  next
    case False
    have "undecimal (decimal n) = 10 * undecimal (decimal (n div 10)) + (of_char (digit (n mod 10)) - 48)"
      using False by (subst decimal.simps) (simp add: undecimal_snoc)
    also have "\<dots> = 10 * (n div 10) + n mod 10"
      using False "1.IH" by (simp add: digit_def)
    finally show ?thesis by simp
  qed
qed

lemma FormatUint_inj: "FormatUint a = FormatUint b \<Longrightarrow> a = b"
proof -
  assume "FormatUint a = FormatUint b"
  then have "undecimal (decimal (unat a)) = undecimal (decimal (unat b))"
    by (simp add: FormatUint_def)
  then show "a = b" by (simp add: undecimal_decimal word_unat_eq_iff)
qed

lemma issued_tickets:
  "issued n c = (tickets (nodeIDCounter c) n, c\<lparr>nodeIDCounter := nodeIDCounter c + of_nat n\<rparr>)"
  by (induction n arbitrary: c) (simp_all add: nextNodeID_def Let_def add.assoc)

lemma tickets_append:
  "tickets ctr (a + b) = tickets ctr a @ tickets (ctr + of_nat a) b"
  by (induction a arbitrary: ctr) (simp_all add: add.assoc)


lemma tickets_map:
  "tickets ctr n = map (\<lambda>j. FormatUint (ctr + of_nat (Suc j))) [0..<n]"
proof (induction n arbitrary: ctr)
  case 0
  show ?case by simp
next
  case (Suc n)
  have "[0..<Suc n] = 0 # map Suc [0..<n]"
    by (simp add: upt_conv_Cons map_Suc_upt del: upt_Suc)
  then show ?case
    by (simp add: Suc.IH comp_def add.assoc del: upt_Suc)
qed

lemma distinct_tickets:
  assumes "n < 2 ^ 64"
  shows "distinct (tickets ctr n)"
proof -
  have "inj_on (\<lambda>j. FormatUint (ctr + of_nat (Suc j))) {0..<n}"
  proof (rule inj_onI)
    fix i j
    assume i: "i \<in> {0..<n}" and j: "j \<in> {0..<n}"
      and e: "FormatUint (ctr + of_nat (Suc i)) = FormatUint (ctr + of_nat (Suc j))"
    from e have "(of_nat (Suc i) :: 64 word) = of_nat (Suc j)"
      by (auto dest: FormatUint_inj)
    then have "unat (of_nat (Suc i) :: 64 word) = unat (of_nat (Suc j) :: 64 word)"
      by simp
    moreover have "Suc i < 2 ^ 64" "Suc j < 2 ^ 64"
      using i j assms by auto
    ultimately show "i = j"
      by (simp add: unat_of_nat del: of_nat_Suc)
  qed
  then show ?thesis
    by (simp add: tickets_map distinct_map)
qed

lemma interleaved_mset:
  "interleaved cap running waiting ids \<Longrightarrow>
   mset ids = mset (concat running) + mset (concat waiting)"
proof (induction rule: interleaved.induct)
  case (all_done cap)
  show ?case by simp
next
  case (acquire_go running cap t waiting ids)
  then show ?case by simp
next
  case (call i running x rest cap waiting ids)
  have "running = take i running @ (x # rest) # drop (Suc i) running"
    using call.hyps(1,2) by (metis id_take_nth_drop)
  moreover have "running[i := rest] = take i running @ rest # drop (Suc i) running"
    using call.hyps(1) by (simp add: upd_conv_take_nth_drop)
  ultimately have "mset (concat running) = add_mset x (mset (concat (running[i := rest])))"
    by (metis concat.simps(2) concat_append mset.simps(2) append_Cons union_mset_add_mset_right mset_append)
  with call.IH show ?case by simp
next
  case (release i running cap waiting ids)
  have "running = take i running @ [] # drop (Suc i) running"
    using release.hyps(1,2) by (metis id_take_nth_drop)
  then have "concat running = concat (take i running @ drop (Suc i) running)"
    by (metis concat.simps(2) concat_append append_Nil)
  with release.IH show ?case by simp
qed

lemma convert_ids:
  shows "convertNode c t ids n \<Longrightarrow> mset (map ID (preorder n)) = mset ids"
    and "convertChildrenSequential c cs ids1 ks1 \<Longrightarrow>
           mset (map ID (concat (map preorder ks1))) = mset ids1"
    and "convertChildrenParallel c cs ids2 ks2 \<Longrightarrow>
           mset (map ID (concat (map preorder ks2))) = mset ids2"
    and "goroutines c cs calls slots \<Longrightarrow>
           mset (map ID (concat (map preorder slots))) = mset (concat calls)"
proof (induction rule: convertNode_convertChildrenSequential_convertChildrenParallel_goroutines.inducts)
  case nil_node
  show ?case by simp
next
  case (node_parallel nodeType tsNode ids children nid)
  then show ?case by simp
next
  case (node_sequential nodeType tsNode ids children nid)
  then show ?case by simp
next
  case sequential_done
  show ?case by simp
next
  case (sequential_step child ids childNode children ids' result)
  then show ?case by (simp add: preorder_appended)
next
  case (parallel children calls result ids)
  note p = this
  from p(4) have "mset ids = mset (concat calls)"
    by (auto dest: interleaved_mset)
  with p(3) show ?case unfolding preorder_nonnil by simp
next
  case no_children
  show ?case by simp
next
  case (skip_nil children calls result)
  then show ?case by simp
next
  case (spawn child ids childNode children calls result)
  then show ?case by simp
qed

lemma forget_None_iff: "forget x = None \<longleftrightarrow> x = None"
  by (cases x) simp_all

lemma forget_nonnil:
  "map forget (filter (\<lambda>node. node \<noteq> None) xs) = filter (\<lambda>node. node \<noteq> None) (map forget xs)"
  by (induction xs) (simp_all add: forget_None_iff)

lemma forget_appended:
  "map forget (case x of None \<Rightarrow> xs | Some n \<Rightarrow> Some n # xs) =
   filter (\<lambda>node. node \<noteq> None) [forget x] @ map forget xs"
  by (cases x) simp_all

lemma convert_skeleton:
  shows "convertNode c t ids n \<Longrightarrow> forget n = skeleton c t"
    and "convertChildrenSequential c cs ids1 ks1 \<Longrightarrow>
           map forget ks1 = filter (\<lambda>node. node \<noteq> None) (map (skeleton c) cs)"
    and "convertChildrenParallel c cs ids2 ks2 \<Longrightarrow>
           map forget ks2 = filter (\<lambda>node. node \<noteq> None) (map (skeleton c) cs)"
    and "goroutines c cs calls slots \<Longrightarrow> map forget slots = map (skeleton c) cs"
proof (induction rule: convertNode_convertChildrenSequential_convertChildrenParallel_goroutines.inducts)
  case nil_node
  show ?case by simp
next
  case (node_parallel nodeType tsNode ids children nid)
  then show ?case by (simp add: truncated_location_def Let_def)
next
  case (node_sequential nodeType tsNode ids children nid)
  then show ?case by (simp add: truncated_location_def Let_def)
next
  case sequential_done
  show ?case by simp
next
  case (sequential_step child ids childNode children ids' result)
  then show ?case unfolding forget_appended by simp
next
  case (parallel children calls result ids)
  then show ?case unfolding forget_nonnil by simp
next
  case no_children
  show ?case by simp
next
  case (skip_nil children calls result)
  then show ?case by simp
next
  case (spawn child ids childNode children calls result)
  then show ?case by simp
qed

lemma skeleton_rules:
  "mappingRules c' = mappingRules c \<Longrightarrow> skeleton c' t = skeleton c t"
proof (induction c t rule: skeleton.induct)
  case (1 c)
  show ?case by simp
next
  case (2 c tsNode)
  have m: "map (skeleton c') (ts_Children tsNode) = map (skeleton c) (ts_Children tsNode)"
    using 2 by (intro map_cong) auto
  show ?case using "2.prems" by (simp add: mapNodeType_def m)
qed

lemma kind_token_location_forget: "kind_token_location (forget x) = kind_token_location x"
  by (cases x) (simp_all add: kind_token_location_def)

lemma kind_token_location_skeleton:
  "kind_token_location (skeleton c (Some t)) =
   Some (mapNodeType c (ts_Type t), Text t, Some (truncated_location t))"
  by (simp add: kind_token_location_def Let_def)

lemma nonnil_skeleton:
  "None \<notin> set cs \<Longrightarrow>
   filter (\<lambda>node. node \<noteq> None) (map (skeleton c) cs) = map (\<lambda>t. skeleton c (Some t)) (present cs)
   \<and> length (present cs) = length cs"
proof (induction cs)
  case Nil
  show ?case by simp
next
  case (Cons x xs)
  then show ?case by (cases x) (simp_all add: Let_def)
qed

lemma convertNode_nil_iff:
  "convertNode c t ids n \<Longrightarrow> (n = None) = (t = None)"
  by (erule convertNode.cases) simp_all







lemma par_converter_fields:
  "mappingRules par_converter = defaultMappingRules"
  "nodeIDCounter par_converter = 0"
  "parallelThreshold par_converter = 1"
  "maxGoRoutines par_converter = 4"
  by (simp_all add: par_converter_def SetParallelizationParams_def NewConverter_def)

lemma NewConverter_fields:
  "mappingRules NewConverter = defaultMappingRules"
  "nodeIDCounter NewConverter = 0"
  "parallelThreshold NewConverter = 50"
  "maxGoRoutines NewConverter = 100"
  by (simp_all add: NewConverter_def)

lemma default_kinds:
  "mapNodeType NewConverter ''function'' = Function"
  "mapNodeType NewConverter ''identifier'' = Identifier"
  "mapNodeType NewConverter ''program'' = File"
  "mapNodeType par_converter ''function'' = Function"
  "mapNodeType par_converter ''identifier'' = Identifier"
  "mapNodeType par_converter ''program'' = File"
  by (simp_all add: mapNodeType_def NewConverter_fields par_converter_fields defaultMappingRules_def)

lemma leaf_run:
  assumes "ts_Children tsNode = []" "0 < parallelThreshold c"
  shows "convertNode c (Some tsNode) [nid] (Some (uast_of nid (mapNodeType c (ts_Type tsNode)) tsNode []))"
proof -
  have "convertChildrenSequential c (ts_Children tsNode) [] []"
    using assms(1) by (simp add: sequential_done)
  moreover have "\<not> (int (length (ts_Children tsNode)) > parallelThreshold c
            \<and> int (length (ts_Children tsNode)) < 1000)"
    using assms by simp
  ultimately show ?thesis
    unfolding uast_of_def by (intro node_sequential) simp_all
qed

lemma release_first:
  "interleaved cap running waiting ids \<Longrightarrow> interleaved cap ([] # running) waiting ids"
  using interleaved.release [of 0 "[] # running" cap waiting ids] by simp

lemma call_first:
  "interleaved cap (rest # others) waiting ids
   \<Longrightarrow> interleaved cap ((x # rest) # others) waiting (x # ids)"
  using interleaved.call [of 0 "(x # rest) # others" x rest cap waiting ids] by simp

lemma call_second:
  "interleaved cap (t # rest # others) waiting ids
   \<Longrightarrow> interleaved cap (t # (x # rest) # others) waiting (x # ids)"
  using interleaved.call [of 1 "t # (x # rest) # others" x rest cap waiting ids] by simp

lemma sequential_run:
  "convertNode NewConverter (Some cst_R) [''1'', ''2'', ''3'']
     (Some (uast_of ''1'' File cst_R
        [Some (uast_of ''2'' Function cst_A []), Some (uast_of ''3'' Identifier cst_B [])]))"
proof -
  have a: "convertNode NewConverter (Some cst_A) [''2''] (Some (uast_of ''2'' Function cst_A []))"
    using leaf_run [of cst_A NewConverter "''2''"]
    by (simp add: cst_A_def default_kinds NewConverter_fields)
  have b: "convertNode NewConverter (Some cst_B) [''3''] (Some (uast_of ''3'' Identifier cst_B []))"
    using leaf_run [of cst_B NewConverter "''3''"]
    by (simp add: cst_B_def default_kinds NewConverter_fields)
  have "convertChildrenSequential NewConverter [Some cst_B] ([''3''] @ []) 
          (case Some (uast_of ''3'' Identifier cst_B []) of None \<Rightarrow> [] | Some n \<Rightarrow> Some n # [])"
    by (intro sequential_step sequential_done b)
  then have "convertChildrenSequential NewConverter [None, Some cst_B] ([] @ [''3''])
          (case None of None \<Rightarrow> [Some (uast_of ''3'' Identifier cst_B [])] | Some n \<Rightarrow> Some n # [Some (uast_of ''3'' Identifier cst_B [])])"
    by (intro sequential_step nil_node) simp
  then have "convertChildrenSequential NewConverter [Some cst_A, None, Some cst_B] ([''2''] @ [''3''])
          (case Some (uast_of ''2'' Function cst_A []) of None \<Rightarrow> [Some (uast_of ''3'' Identifier cst_B [])]
            | Some n \<Rightarrow> Some n # [Some (uast_of ''3'' Identifier cst_B [])])"
    by (intro sequential_step a) simp
  then have k: "convertChildrenSequential NewConverter (ts_Children cst_R) [''2'', ''3'']
          [Some (uast_of ''2'' Function cst_A []), Some (uast_of ''3'' Identifier cst_B [])]"
    by (simp add: cst_R_def)
  have "mapNodeType NewConverter (ts_Type cst_R) = File"
    by (simp add: cst_R_def default_kinds)
  moreover have "\<not> (int (length (ts_Children cst_R)) > parallelThreshold NewConverter
            \<and> int (length (ts_Children cst_R)) < 1000)"
    by (simp add: cst_R_def NewConverter_fields)
  ultimately show ?thesis
    unfolding uast_of_def [of "''1''"]
    using k by (intro node_sequential) simp_all
qed

lemma parallel_run:
  "convertNode par_converter (Some cst_R) [''1'', ''2'', ''3'']
     (Some (uast_of ''1'' File cst_R
        [Some (uast_of ''3'' Function cst_A []), Some (uast_of ''2'' Identifier cst_B [])]))"
proof -
  have a: "convertNode par_converter (Some cst_A) [''3''] (Some (uast_of ''3'' Function cst_A []))"
    using leaf_run [of cst_A par_converter "''3''"]
    by (simp add: cst_A_def default_kinds par_converter_fields)
  have b: "convertNode par_converter (Some cst_B) [''2''] (Some (uast_of ''2'' Identifier cst_B []))"
    using leaf_run [of cst_B par_converter "''2''"]
    by (simp add: cst_B_def default_kinds par_converter_fields)
  have g: "goroutines par_converter [Some cst_A, None, Some cst_B] [[''3''], [''2'']]
          [Some (uast_of ''3'' Function cst_A []), None, Some (uast_of ''2'' Identifier cst_B [])]"
    by (intro spawn skip_nil no_children a b)
  have "interleaved 4 [] [] []"
    by (rule all_done)
  then have "interleaved 4 [[]] [] []"
    by (rule release_first)
  then have "interleaved 4 [[], []] [] []"
    by (rule release_first)
  then have "interleaved 4 [[''3''], []] [] [''3'']"
    by (rule call_first)
  then have "interleaved 4 [[''3''], [''2'']] [] [''2'', ''3'']"
    by (rule call_second)
  then have "interleaved 4 ([[''3'']] @ [[''2'']]) [] [''2'', ''3'']"
    by simp
  then have "interleaved 4 [[''3'']] [[''2'']] [''2'', ''3'']"
    by (rule interleaved.acquire_go [rotated]) simp
  then have "interleaved 4 ([] @ [[''3'']]) [[''2'']] [''2'', ''3'']"
    by simp
  then have "interleaved 4 [] [[''3''], [''2'']] [''2'', ''3'']"
    by (rule interleaved.acquire_go [rotated]) simp
  with g have "convertChildrenParallel par_converter [Some cst_A, None, Some cst_B] [''2'', ''3'']
     (filter (\<lambda>node. node \<noteq> None)
        [Some (uast_of ''3'' Function cst_A []), None, Some (uast_of ''2'' Identifier cst_B [])])"
    by (intro parallel) (simp_all add: par_converter_fields)
  then have k: "convertChildrenParallel par_converter (ts_Children cst_R) [''2'', ''3'']
          [Some (uast_of ''3'' Function cst_A []), Some (uast_of ''2'' Identifier cst_B [])]"
    by (simp add: cst_R_def)
  have "mapNodeType par_converter (ts_Type cst_R) = File"
    by (simp add: cst_R_def default_kinds)
  moreover have "int (length (ts_Children cst_R)) > parallelThreshold par_converter
            \<and> int (length (ts_Children cst_R)) < 1000"
    by (simp add: cst_R_def par_converter_fields)
  ultimately show ?thesis
    unfolding uast_of_def [of "''1''"]
    using k by (intro node_parallel) simp_all
qed

lemma uint_ucast_succ:
  "uint (ucast (r + 1 :: 64 word) :: 32 word) = (sint r + 1) mod 2 ^ 32"
proof -
  have d: "(2::int) ^ 32 dvd 2 ^ 64"
    by (rule le_imp_power_dvd) simp
  have "uint (ucast (r + 1 :: 64 word) :: 32 word) = uint (r + 1) mod 2 ^ 32"
    by (simp add: unsigned_ucast_eq take_bit_eq_mod)
  also have "\<dots> = ((uint r + 1) mod 2 ^ 64) mod 2 ^ 32"
    by (simp add: uint_word_ariths)
  also have "\<dots> = (uint r + 1) mod 2 ^ 32"
    using d by (rule mod_mod_cancel)
  also have "\<dots> = (uint r mod 2 ^ 32 + 1) mod 2 ^ 32"
    by (simp add: mod_add_left_eq)
  also have "uint r mod 2 ^ 32 = (sint r mod 2 ^ 64) mod 2 ^ 32"
    by (simp add: uint_sint [of r] take_bit_eq_mod)
  also have "\<dots> = sint r mod 2 ^ 32"
    using d by (rule mod_mod_cancel)
  also have "(sint r mod 2 ^ 32 + 1) mod 2 ^ 32 = (sint r + 1) mod 2 ^ 32"
    by (simp add: mod_add_left_eq)
  finally show ?thesis .
qed

lemma exact_coordinate_iff:
  "uint (ucast (r + 1 :: 64 word) :: 32 word) = sint r + 1 \<longleftrightarrow> - 1 \<le> sint r \<and> sint r < 2 ^ 32 - 1"
proof -
  have "(sint r + 1) mod 2 ^ 32 = sint r + 1 \<longleftrightarrow> 0 \<le> sint r + 1 \<and> sint r + 1 < 2 ^ 32"
    by (auto simp: mod_pos_pos_trivial intro: pos_mod_sign [of "2 ^ 32", THEN order_trans [rotated]]
        dest: sym)
  then show ?thesis unfolding uint_ucast_succ by auto
qed


lemma located_converted:
  "located tsNode (Node nid k tok rs children props (Some (truncated_location tsNode)))"
  by (simp add: located_def exact_location_def exact_position_def truncated_location_def
      positions_fit_def fits_uint32_def exact_coordinate_iff)

text \<open>
  Claim C1, amended. For every CST node, on the sequential and on the parallel path alike,
  the UAST node produced for it has as location the start and end point with one added to
  each coordinate and the sum converted to \<^verbatim>\<open>uint32\<close>. The location is exactly
  \<open>(r0+1, c0+1)\<close> to \<open>(r1+1, c1+1)\<close> if and only if each coordinate plus one lies in
  \<open>0 .. 2\<^sup>3\<^sup>2 - 1\<close>. The nodes are paired in pre-order: the k-th node of the result is
  the one produced for the k-th non-nil node of the input.
\<close>

theorem location_is_position_plus_one_in_uint32:
  "(convertNode c t ids n \<longrightarrow> list_all2 located (cst_preorder t) (preorder n))
   \<and> (convertChildrenSequential c cs ids ks \<longrightarrow>
        list_all2 located (concat (map cst_preorder cs)) (concat (map preorder ks)))
   \<and> (convertChildrenParallel c cs ids ks \<longrightarrow>
        list_all2 located (concat (map cst_preorder cs)) (concat (map preorder ks)))"
  using convert_pairs(1-3) [of located c, OF located_converted] by blast

lemma cst_preorder_R: "cst_preorder (Some cst_R) = [cst_R, cst_A, cst_B]"
  by (simp add: cst_R_def cst_A_def cst_B_def)

lemma positions_fit_R: "positions_fit cst_R" "positions_fit cst_A" "positions_fit cst_B"
  by (simp_all add: positions_fit_def fits_uint32_def cst_R_def cst_A_def cst_B_def)

theorem location_is_position_plus_one_in_uint32_witness:
  "convertNode par_converter (Some cst_R) [''1'', ''2'', ''3'']
     (Some (uast_of ''1'' File cst_R
        [Some (uast_of ''3'' Function cst_A []), Some (uast_of ''2'' Identifier cst_B [])]))
   \<and> list_all2 exact_location [cst_R, cst_A, cst_B]
       (preorder (Some (uast_of ''1'' File cst_R
          [Some (uast_of ''3'' Function cst_A []), Some (uast_of ''2'' Identifier cst_B [])])))
   \<and> Location (uast_of ''2'' Identifier cst_B []) =
       Some \<lparr>Start = \<lparr>Line = 4, Column = 5\<rparr>, End = \<lparr>Line = 4, Column = 6\<rparr>\<rparr>"
proof -
  let ?n = "Some (uast_of ''1'' File cst_R
        [Some (uast_of ''3'' Function cst_A []), Some (uast_of ''2'' Identifier cst_B [])])"
  note T = location_is_position_plus_one_in_uint32
    [of par_converter "Some cst_R" "[''1'', ''2'', ''3'']" ?n "[]" "[]"]
  from T [THEN conjunct1, rule_format, OF parallel_run]
  have "list_all2 located [cst_R, cst_A, cst_B] (preorder ?n)"
    unfolding cst_preorder_R .
  then have "list_all2 exact_location [cst_R, cst_A, cst_B] (preorder ?n)"
    by (rule list.rel_mono_strong) (use positions_fit_R in \<open>auto simp: located_def\<close>)
  moreover have "Location (uast_of ''2'' Identifier cst_B []) =
       Some \<lparr>Start = \<lparr>Line = 4, Column = 5\<rparr>, End = \<lparr>Line = 4, Column = 6\<rparr>\<rparr>"
    by (simp add: uast_of_def cst_B_def)
  ultimately show ?thesis using parallel_run by blast
qed

lemma FormatUint_1: "FormatUint 1 = ''1''"
  by code_simp

text \<open>
  Claim C1 as stated fails: a CST node on row 4294967295 is converted to a node on line 0,
  not on line 4294967296.
\<close>

theorem exact_location_counterexample:
  "Convert NewConverter (Some cst_far) ''go''
     (Inr (NewUAST (Some (uast_of ''1'' Identifier cst_far [])) ''go''))
     (NewConverter\<lparr>nodeIDCounter := 1\<rparr>)
   \<and> Location (uast_of ''1'' Identifier cst_far []) =
       Some \<lparr>Start = \<lparr>Line = 0, Column = 1\<rparr>, End = \<lparr>Line = 0, Column = 2\<rparr>\<rparr>
   \<and> \<not> exact_location cst_far (uast_of ''1'' Identifier cst_far [])"
proof -
  have "convertNode NewConverter (Some cst_far) [''1'']
          (Some (uast_of ''1'' (mapNodeType NewConverter (ts_Type cst_far)) cst_far []))"
    by (rule leaf_run) (simp_all add: cst_far_def NewConverter_fields)
  then have r: "convertNode NewConverter (Some cst_far) [''1''] (Some (uast_of ''1'' Identifier cst_far []))"
    by (simp add: cst_far_def default_kinds)
  have i: "issued (length [''1'']) NewConverter = ([''1''], NewConverter\<lparr>nodeIDCounter := 1\<rparr>)"
    by (simp add: issued_tickets NewConverter_fields FormatUint_1)
  have l: "Location (uast_of ''1'' Identifier cst_far []) =
       Some \<lparr>Start = \<lparr>Line = 0, Column = 1\<rparr>, End = \<lparr>Line = 0, Column = 2\<rparr>\<rparr>"
    by (simp add: uast_of_def cst_far_def)
  have e: "\<not> exact_location cst_far (uast_of ''1'' Identifier cst_far [])"
    unfolding exact_location_def l by (simp add: exact_position_def cst_far_def)
  from Convert.converted [OF r i] l e show ?thesis by blast
qed








lemma sequential_children_run:
  "convertChildrenSequential NewConverter [Some cst_A, Some cst_B] [''2'', ''3'']
     [Some (uast_of ''2'' Function cst_A []), Some (uast_of ''3'' Identifier cst_B [])]"
proof -
  have a: "convertNode NewConverter (Some cst_A) [''2''] (Some (uast_of ''2'' Function cst_A []))"
    using leaf_run [of cst_A NewConverter "''2''"]
    by (simp add: cst_A_def default_kinds NewConverter_fields)
  have b: "convertNode NewConverter (Some cst_B) [''3''] (Some (uast_of ''3'' Identifier cst_B []))"
    using leaf_run [of cst_B NewConverter "''3''"]
    by (simp add: cst_B_def default_kinds NewConverter_fields)
  have "convertChildrenSequential NewConverter [Some cst_B] ([''3''] @ [])
          (case Some (uast_of ''3'' Identifier cst_B []) of None \<Rightarrow> [] | Some n \<Rightarrow> Some n # [])"
    by (intro sequential_step sequential_done b)
  then have "convertChildrenSequential NewConverter [Some cst_A, Some cst_B] ([''2''] @ [''3''])
          (case Some (uast_of ''2'' Function cst_A []) of None \<Rightarrow> [Some (uast_of ''3'' Identifier cst_B [])]
            | Some n \<Rightarrow> Some n # [Some (uast_of ''3'' Identifier cst_B [])])"
    by (intro sequential_step a) simp
  then show ?thesis by simp
qed

lemma parallel_children_run:
  "convertChildrenParallel par_converter [Some cst_A, Some cst_B] [''2'', ''3'']
     [Some (uast_of ''3'' Function cst_A []), Some (uast_of ''2'' Identifier cst_B [])]"
proof -
  have a: "convertNode par_converter (Some cst_A) [''3''] (Some (uast_of ''3'' Function cst_A []))"
    using leaf_run [of cst_A par_converter "''3''"]
    by (simp add: cst_A_def default_kinds par_converter_fields)
  have b: "convertNode par_converter (Some cst_B) [''2''] (Some (uast_of ''2'' Identifier cst_B []))"
    using leaf_run [of cst_B par_converter "''2''"]
    by (simp add: cst_B_def default_kinds par_converter_fields)
  have g: "goroutines par_converter [Some cst_A, Some cst_B] [[''3''], [''2'']]
          [Some (uast_of ''3'' Function cst_A []), Some (uast_of ''2'' Identifier cst_B [])]"
    by (intro spawn no_children a b)
  have "interleaved 4 [] [] []"
    by (rule all_done)
  then have "interleaved 4 [[]] [] []"
    by (rule release_first)
  then have "interleaved 4 [[], []] [] []"
    by (rule release_first)
  then have "interleaved 4 [[''3''], []] [] [''3'']"
    by (rule call_first)
  then have "interleaved 4 [[''3''], [''2'']] [] [''2'', ''3'']"
    by (rule call_second)
  then have "interleaved 4 ([[''3'']] @ [[''2'']]) [] [''2'', ''3'']"
    by simp
  then have "interleaved 4 [[''3'']] [[''2'']] [''2'', ''3'']"
    by (rule interleaved.acquire_go [rotated]) simp
  then have "interleaved 4 ([] @ [[''3'']]) [[''2'']] [''2'', ''3'']"
    by simp
  then have "interleaved 4 [] [[''3''], [''2'']] [''2'', ''3'']"
    by (rule interleaved.acquire_go [rotated]) simp
  with g have "convertChildrenParallel par_converter [Some cst_A, Some cst_B] [''2'', ''3'']
     (filter (\<lambda>node. node \<noteq> None)
        [Some (uast_of ''3'' Function cst_A []), Some (uast_of ''2'' Identifier cst_B [])])"
    by (intro parallel) (simp_all add: par_converter_fields)
  then show ?thesis by simp
qed

lemma kind_token_location_children:
  assumes "map forget ks = filter (\<lambda>node. node \<noteq> None) (map (skeleton c) cs)" "None \<notin> set cs"
  shows "map kind_token_location ks =
         map (map_option (\<lambda>t. (mapNodeType c (ts_Type t), Text t, Some (truncated_location t)))) cs"
    and "length ks = length cs"
proof -
  have "map kind_token_location ks = map kind_token_location (map forget ks)"
    by (simp add: kind_token_location_forget)
  also have "\<dots> = map kind_token_location (map (\<lambda>t. skeleton c (Some t)) (present cs))"
    using assms nonnil_skeleton [of cs c] by simp
  also have "\<dots> = map (\<lambda>t. Some (mapNodeType c (ts_Type t), Text t, Some (truncated_location t))) (present cs)"
    by (simp add: kind_token_location_skeleton del: skeleton.simps)
  also have "\<dots> = map (map_option (\<lambda>t. (mapNodeType c (ts_Type t), Text t, Some (truncated_location t)))) cs"
    using assms(2) by (induction cs rule: present.induct) simp_all
  finally show "map kind_token_location ks =
         map (map_option (\<lambda>t. (mapNodeType c (ts_Type t), Text t, Some (truncated_location t)))) cs" .
  have "length ks = length (map forget ks)" by simp
  also have "\<dots> = length cs"
    using assms nonnil_skeleton [of cs c] by simp
  finally show "length ks = length cs" .
qed

text \<open>
  Claim C2. For a children list without nil entries, the result of the parallel path and
  the result of the sequential path (of a converter with the same mapping rules, whatever
  its thresholds) are equal up to node identities, in particular equal element for element
  in kind, token and location; both have one entry per child, and the entry at an index has
  the mapped kind, the text and the location of the child at that index.
\<close>

theorem parallel_and_sequential_children_agree:
  assumes "convertChildrenParallel c cs ids ks"
    and "convertChildrenSequential c' cs ids' ks'"
    and "mappingRules c' = mappingRules c"
    and "None \<notin> set cs"
  shows "map forget ks = map forget ks'
       \<and> map kind_token_location ks = map kind_token_location ks'
       \<and> length ks = length cs \<and> length ks' = length cs
       \<and> map kind_token_location ks =
           map (map_option (\<lambda>t. (mapNodeType c (ts_Type t), Text t, Some (truncated_location t)))) cs"
proof -
  have p: "map forget ks = filter (\<lambda>node. node \<noteq> None) (map (skeleton c) cs)"
    using assms(1) by (rule convert_skeleton(3))
  have "map forget ks' = filter (\<lambda>node. node \<noteq> None) (map (skeleton c') cs)"
    using assms(2) by (rule convert_skeleton(2))
  also have "map (skeleton c') cs = map (skeleton c) cs"
    using assms(3) by (intro map_cong refl skeleton_rules)
  finally have s: "map forget ks' = filter (\<lambda>node. node \<noteq> None) (map (skeleton c) cs)" .
  from p s have 1: "map forget ks = map forget ks'" by simp
  note kp = kind_token_location_children [OF p assms(4)]
  note ks = kind_token_location_children [OF s assms(4)]
  have 2: "map kind_token_location ks = map kind_token_location ks'"
    by (simp only: kp(1) ks(1))
  from 1 2 kp(2) ks(2) kp(1) show ?thesis by (intro conjI)
qed

theorem parallel_and_sequential_children_agree_witness:
  "convertChildrenParallel par_converter [Some cst_A, Some cst_B] [''2'', ''3'']
     [Some (uast_of ''3'' Function cst_A []), Some (uast_of ''2'' Identifier cst_B [])]
   \<and> convertChildrenSequential NewConverter [Some cst_A, Some cst_B] [''2'', ''3'']
     [Some (uast_of ''2'' Function cst_A []), Some (uast_of ''3'' Identifier cst_B [])]
   \<and> mappingRules NewConverter = mappingRules par_converter
   \<and> None \<notin> set [Some cst_A, Some cst_B]
   \<and> map forget [Some (uast_of ''3'' Function cst_A []), Some (uast_of ''2'' Identifier cst_B [])] =
     map forget [Some (uast_of ''2'' Function cst_A []), Some (uast_of ''3'' Identifier cst_B [])]
   \<and> map kind_token_location
       [Some (uast_of ''3'' Function cst_A []), Some (uast_of ''2'' Identifier cst_B [])] =
     [Some (Function, ''main'', Some \<lparr>Start = \<lparr>Line = 1, Column = 1\<rparr>, End = \<lparr>Line = 3, Column = 2\<rparr>\<rparr>),
      Some (Identifier, ''x'', Some \<lparr>Start = \<lparr>Line = 4, Column = 5\<rparr>, End = \<lparr>Line = 4, Column = 6\<rparr>\<rparr>)]"
proof -
  have m: "mappingRules NewConverter = mappingRules par_converter"
    by (simp add: NewConverter_fields par_converter_fields)
  have n: "None \<notin> set [Some cst_A, Some cst_B]"
    by simp
  note T = parallel_and_sequential_children_agree
    [OF parallel_children_run sequential_children_run m n]
  have "map kind_token_location
       [Some (uast_of ''3'' Function cst_A []), Some (uast_of ''2'' Identifier cst_B [])] =
     [Some (Function, ''main'', Some \<lparr>Start = \<lparr>Line = 1, Column = 1\<rparr>, End = \<lparr>Line = 3, Column = 2\<rparr>\<rparr>),
      Some (Identifier, ''x'', Some \<lparr>Start = \<lparr>Line = 4, Column = 5\<rparr>, End = \<lparr>Line = 4, Column = 6\<rparr>\<rparr>)]"
    unfolding T [THEN conjunct2, THEN conjunct2, THEN conjunct2, THEN conjunct2]
    by (simp add: default_kinds truncated_location_def cst_A_def cst_B_def)
  with T [THEN conjunct1] parallel_children_run sequential_children_run m n
  show ?thesis by (intro conjI)
qed



lemma Convert_nil:
  "Convert c None language r c' \<longleftrightarrow> r = Inl (Errorf ''root node cannot be nil'') \<and> c' = c"
  by (auto elim: Convert.cases intro: Convert.nil_root)

lemma Convert_root:
  assumes "Convert c (Some root) language r c'"
  shows "\<exists>ids node. r = Inr (NewUAST (Some node) language)
           \<and> convertNode c (Some root) ids (Some node)
           \<and> issued (length ids) c = (ids, c')"
proof -
  from assms obtain ids uastRoot where 1: "convertNode c (Some root) ids uastRoot"
    and 2: "issued (length ids) c = (ids, c')" and 3: "r = Inr (NewUAST uastRoot language)"
    by (auto elim: Convert.cases)
  from 1 have "uastRoot \<noteq> None"
    by (auto dest: convertNode_nil_iff)
  with 1 2 3 show ?thesis by auto
qed





lemma FormatUint_2: "FormatUint 2 = ''2''"
  by code_simp

lemma FormatUint_3: "FormatUint 3 = ''3''"
  by code_simp

lemma Convert_ids:
  assumes "Convert c root language (Inr u) c'"
  shows "mset (map ID (preorder (Root u))) =
           mset (tickets (nodeIDCounter c) (length (preorder (Root u))))"
    and "nodeIDCounter c' = nodeIDCounter c + of_nat (length (preorder (Root u)))"
proof -
  from assms obtain t where t: "root = Some t"
    by (cases root) (auto simp: Convert_nil)
  from assms obtain ids node where u: "u = NewUAST (Some node) language"
    and r: "convertNode c (Some t) ids (Some node)"
    and i: "issued (length ids) c = (ids, c')"
    unfolding t by (auto dest: Convert_root)
  from r have m: "mset (map ID (preorder (Some node))) = mset ids"
    by (rule convert_ids(1))
  then have "size (mset (map ID (preorder (Some node)))) = size (mset ids)"
    by simp
  then have l: "length ids = length (preorder (Some node))"
    by (simp del: preorder.simps)
  from i have "ids = tickets (nodeIDCounter c) (length ids)"
    and "c' = c\<lparr>nodeIDCounter := nodeIDCounter c + of_nat (length ids)\<rparr>"
    by (simp_all add: issued_tickets)
  with m l show "mset (map ID (preorder (Root u))) =
           mset (tickets (nodeIDCounter c) (length (preorder (Root u))))"
    and "nodeIDCounter c' = nodeIDCounter c + of_nat (length (preorder (Root u)))"
    unfolding u Root_NewUAST by (simp_all del: preorder.simps)
qed

lemma undecimal_FormatUint: "undecimal (FormatUint i) = unat i"
  by (simp add: FormatUint_def undecimal_decimal)

lemma unat_next:
  "unat (nodeIDCounter c) < 2 ^ 64 - 1 \<Longrightarrow> unat (nodeIDCounter c + 1) = Suc (unat (nodeIDCounter c))"
  by (simp add: unat_word_ariths) 

text \<open>
  Claim C5. The first identity a new converter issues is \<open>1\<close>; every call returns the
  decimal string of the counter's value plus one and stores that value, which is one more
  than before as long as the 64-bit counter has not reached its last value. The identities
  of a converted tree are exactly the values the counter issued during the conversion, each
  used once, whatever the interleaving of parallel subtrees: a tree of \<open>k < 2\<^sup>6\<^sup>4\<close> nodes
  carries \<open>k\<close> distinct identities, and the identities of two trees converted one after
  the other by the same converter are distinct from each other as well (for fewer than
  \<open>2\<^sup>6\<^sup>4\<close> nodes in total).
\<close>

theorem node_identities_are_distinct:
  "fst (nextNodeID NewConverter) = ''1''
   \<and> fst (nextNodeID c) = FormatUint (nodeIDCounter c + 1)
   \<and> nodeIDCounter (snd (nextNodeID c)) = nodeIDCounter c + 1
   \<and> undecimal (FormatUint i) = unat i
   \<and> (unat (nodeIDCounter c) < 2 ^ 64 - 1 \<longrightarrow>
        unat (nodeIDCounter (snd (nextNodeID c))) = Suc (unat (nodeIDCounter c)))
   \<and> (Convert c root language (Inr u) c' \<longrightarrow>
        mset (map ID (preorder (Root u))) =
          mset (map (\<lambda>j. FormatUint (nodeIDCounter c + of_nat (Suc j)))
                  [0..<length (preorder (Root u))])
        \<and> nodeIDCounter c' = nodeIDCounter c + of_nat (length (preorder (Root u)))
        \<and> (length (preorder (Root u)) < 2 ^ 64 \<longrightarrow>
             distinct (map ID (preorder (Root u)))
             \<and> card (ID ` set (preorder (Root u))) = length (preorder (Root u))))
   \<and> (Convert c root language (Inr u) c' \<and> Convert c' root' language' (Inr u') c''
        \<and> length (preorder (Root u)) + length (preorder (Root u')) < 2 ^ 64 \<longrightarrow>
        distinct (map ID (preorder (Root u) @ preorder (Root u'))))"
proof -
  have 1: "fst (nextNodeID NewConverter) = ''1''"
    by (simp add: nextNodeID_def NewConverter_def FormatUint_1 Let_def)
  have 2: "fst (nextNodeID c) = FormatUint (nodeIDCounter c + 1)"
    and 3: "nodeIDCounter (snd (nextNodeID c)) = nodeIDCounter c + 1"
    by (simp_all add: nextNodeID_def Let_def)
  have 5: "unat (nodeIDCounter c) < 2 ^ 64 - 1 \<longrightarrow>
        unat (nodeIDCounter (snd (nextNodeID c))) = Suc (unat (nodeIDCounter c))"
    by (simp add: 3 unat_next)
  have 6: "Convert c root language (Inr u) c' \<longrightarrow>
        mset (map ID (preorder (Root u))) =
          mset (map (\<lambda>j. FormatUint (nodeIDCounter c + of_nat (Suc j)))
                  [0..<length (preorder (Root u))])
        \<and> nodeIDCounter c' = nodeIDCounter c + of_nat (length (preorder (Root u)))
        \<and> (length (preorder (Root u)) < 2 ^ 64 \<longrightarrow>
             distinct (map ID (preorder (Root u)))
             \<and> card (ID ` set (preorder (Root u))) = length (preorder (Root u)))"
  proof
    assume a: "Convert c root language (Inr u) c'"
    let ?k = "length (preorder (Root u))"
    note m = Convert_ids [OF a]
    have d: "distinct (map ID (preorder (Root u)))" if "?k < 2 ^ 64"
      using distinct_tickets [OF that, of "nodeIDCounter c"] m(1)
      by (metis mset_eq_imp_distinct_iff)
    have "card (ID ` set (preorder (Root u))) = ?k" if "?k < 2 ^ 64"
      using d [OF that] distinct_card [of "map ID (preorder (Root u))"] by simp
    with d m show "mset (map ID (preorder (Root u))) =
          mset (map (\<lambda>j. FormatUint (nodeIDCounter c + of_nat (Suc j))) [0..<?k])
        \<and> nodeIDCounter c' = nodeIDCounter c + of_nat ?k
        \<and> (?k < 2 ^ 64 \<longrightarrow> distinct (map ID (preorder (Root u)))
             \<and> card (ID ` set (preorder (Root u))) = ?k)"
      unfolding tickets_map by blast
  qed
  have 7: "Convert c root language (Inr u) c' \<and> Convert c' root' language' (Inr u') c''
        \<and> length (preorder (Root u)) + length (preorder (Root u')) < 2 ^ 64 \<longrightarrow>
        distinct (map ID (preorder (Root u) @ preorder (Root u')))"
  proof
    assume a: "Convert c root language (Inr u) c' \<and> Convert c' root' language' (Inr u') c''
        \<and> length (preorder (Root u)) + length (preorder (Root u')) < 2 ^ 64"
    let ?k = "length (preorder (Root u))" and ?k' = "length (preorder (Root u'))"
    from a have a1: "Convert c root language (Inr u) c'"
      and a2: "Convert c' root' language' (Inr u') c''" and b: "?k + ?k' < 2 ^ 64"
      by simp_all
    have "mset (map ID (preorder (Root u) @ preorder (Root u'))) =
          mset (tickets (nodeIDCounter c) ?k @ tickets (nodeIDCounter c + of_nat ?k) ?k')"
      using Convert_ids [OF a1] Convert_ids(1) [OF a2] by simp
    also have "\<dots> = mset (tickets (nodeIDCounter c) (?k + ?k'))"
      by (simp only: tickets_append)
    finally show "distinct (map ID (preorder (Root u) @ preorder (Root u')))"
      using distinct_tickets [OF b, of "nodeIDCounter c"]
      by (metis mset_eq_imp_distinct_iff)
  qed
  from 1 2 3 undecimal_FormatUint 5 6 7 show ?thesis by (intro conjI)
qed

theorem node_identities_are_distinct_witness:
  "Convert par_converter (Some cst_R) ''go''
     (Inr (NewUAST (Some (uast_of ''1'' File cst_R
        [Some (uast_of ''3'' Function cst_A []), Some (uast_of ''2'' Identifier cst_B [])])) ''go''))
     (par_converter\<lparr>nodeIDCounter := 3\<rparr>)
   \<and> map ID (preorder (Root (NewUAST (Some (uast_of ''1'' File cst_R
        [Some (uast_of ''3'' Function cst_A []), Some (uast_of ''2'' Identifier cst_B [])])) ''go'')))
      = [''1'', ''3'', ''2'']
   \<and> distinct (map ID (preorder (Root (NewUAST (Some (uast_of ''1'' File cst_R
        [Some (uast_of ''3'' Function cst_A []), Some (uast_of ''2'' Identifier cst_B [])])) ''go''))))"
proof -
  let ?n = "uast_of ''1'' File cst_R
        [Some (uast_of ''3'' Function cst_A []), Some (uast_of ''2'' Identifier cst_B [])]"
  have i: "issued (length [''1'', ''2'', ''3'']) par_converter =
           ([''1'', ''2'', ''3''], par_converter\<lparr>nodeIDCounter := 3\<rparr>)"
    by (simp add: issued_tickets par_converter_fields numeral_3_eq_3
        FormatUint_1 FormatUint_2 FormatUint_3)
  have r: "Convert par_converter (Some cst_R) ''go'' (Inr (NewUAST (Some ?n) ''go''))
             (par_converter\<lparr>nodeIDCounter := 3\<rparr>)"
    using parallel_run i by (rule Convert.converted)
  have p: "map ID (preorder (Root (NewUAST (Some ?n) ''go''))) = [''1'', ''3'', ''2'']"
    by (simp add: Root_NewUAST uast_of_def)
  then have k: "length (preorder (Root (NewUAST (Some ?n) ''go''))) < 2 ^ 64"
    using length_map [of ID "preorder (Root (NewUAST (Some ?n) ''go''))"] by simp
  from node_identities_are_distinct
    [of par_converter 0 "Some cst_R" "''go''" "NewUAST (Some ?n) ''go''"
      "par_converter\<lparr>nodeIDCounter := 3\<rparr>",
      THEN conjunct2, THEN conjunct2, THEN conjunct2, THEN conjunct2, THEN conjunct2,
      THEN conjunct1, rule_format, OF r, THEN conjunct2, THEN conjunct2, rule_format, OF k]
  have "distinct (map ID (preorder (Root (NewUAST (Some ?n) ''go''))))"
    by (rule conjunct1)
  with r p show ?thesis by (intro conjI)
qed

section \<open>Properties of the path search and the common ancestor\<close>

lemma dom_search:
  "buildPathToHelper_childrenLoop_dom x"
  using search_terminates by blast

lemma visited_grows_total:
  "visited \<subseteq> snd (buildPathToHelper h target current visited)"
  by (rule visited_grows(1) [OF dom_search])

lemma revisit_returns:
  "r < length h \<Longrightarrow> obj_ID (h ! r) \<in> visited \<Longrightarrow>
   buildPathToHelper h target (Some r) visited = (None, visited)"
  by (simp add: buildPathToHelper.simps)

lemma visited_bounded:
  "snd (buildPathToHelper h target current visited) \<subseteq> visited \<union> obj_ID ` set h"
  "snd (childrenLoop h target r children visited) \<subseteq> visited \<union> obj_ID ` set h"
proof (induction h target current visited and h target r children visited
    rule: buildPathToHelper_childrenLoop.induct)
  case (1 h target current visited)
  show ?case
  proof (cases current)
    case None
    then show ?thesis by (simp add: buildPathToHelper.simps)
  next
    case (Some x)
    show ?thesis
    proof (cases "\<not> length h \<le> x \<and> obj_ID (h ! x) \<notin> visited \<and> current \<noteq> target")
      case True
      with Some "1.IH" [of x] have "snd (childrenLoop h target x (obj_Children (h ! x)) (insert (obj_ID (h ! x)) visited))
          \<subseteq> insert (obj_ID (h ! x)) visited \<union> obj_ID ` set h"
        by simp
      moreover have "obj_ID (h ! x) \<in> obj_ID ` set h"
        using True by simp
      ultimately show ?thesis using Some True
        by (auto simp: buildPathToHelper.simps)
    next
      case False
      then show ?thesis using Some
        by (auto simp: buildPathToHelper.simps)
    qed
  qed
next
  case (2 h target r visited)
  show ?case by simp
next
  case (3 h target r child children visited)
  obtain p v where e: "(p, v) = buildPathToHelper h target child visited"
    by (metis surj_pair)
  with "3.IH"(1) have 1: "v \<subseteq> visited \<union> obj_ID ` set h"
    by (metis snd_conv)
  show ?case
  proof (cases p)
    case None
    from "3.IH"(2) [OF e None]
    have "snd (childrenLoop h target r children v) \<subseteq> v \<union> obj_ID ` set h" .
    with 1 None e [symmetric] show ?thesis by auto
  next
    case (Some path)
    with 1 e [symmetric] show ?thesis by simp
  qed
qed

text \<open>
  Claim C9. The path search terminates on every store, cyclic or not: every argument of
  \<^verbatim>\<open>buildPathToHelper\<close> and of its loop over the children lies in the accessible part of
  the recursion's call relation, that is, no chain of recursive calls starting from it is
  infinite. The reason is the visited set: a call never loses a mark, adds only
  identities of the store, and returns at once, without descending, at a node whose
  identity is already marked.
\<close>

theorem path_search_terminates:
  "buildPathToHelper_childrenLoop_dom (Inl (h, target, current, visited))
   \<and> buildPathToHelper_childrenLoop_dom (Inr (h, target, r, children, visited))
   \<and> visited \<subseteq> snd (buildPathToHelper h target current visited)
   \<and> snd (buildPathToHelper h target current visited) \<subseteq> visited \<union> obj_ID ` set h
   \<and> (r < length h \<and> obj_ID (h ! r) \<in> visited \<longrightarrow>
        buildPathToHelper h target (Some r) visited = (None, visited))"
  using dom_search [of "Inl (h, target, current, visited)"]
    dom_search [of "Inr (h, target, r, children, visited)"]
    visited_grows_total [of visited h target current]
    visited_bounded(1) [of h target current visited]
    revisit_returns [of r h visited target]
  by (intro conjI impI) simp_all

lemma cyclic_search:
  "buildPathToHelper cyclic_store (Some 2) (Some 0) {} = (None, {''1'', ''2''})"
  by code_simp

theorem path_search_terminates_witness:
  "0 < length cyclic_store \<and> obj_ID (cyclic_store ! 0) \<in> {''1'', ''2''}
   \<and> buildPathToHelper cyclic_store (Some 2) (Some 0) {''1'', ''2''} = (None, {''1'', ''2''})
   \<and> buildPathToHelper cyclic_store (Some 2) (Some 0) {} = (None, {''1'', ''2''})
   \<and> buildPathTo cyclic_store (Some 2) (Some 0) = None"
proof -
  have 1: "0 < length cyclic_store \<and> obj_ID (cyclic_store ! 0) \<in> {''1'', ''2''}"
    by (simp add: cyclic_store_def)
  from path_search_terminates [of cyclic_store "Some 2" "Some 0" "{''1'', ''2''}" 0 "[]",
      THEN conjunct2, THEN conjunct2, THEN conjunct2, THEN conjunct2, rule_format, OF 1]
  have 2: "buildPathToHelper cyclic_store (Some 2) (Some 0) {''1'', ''2''} = (None, {''1'', ''2''})" .
  have 3: "buildPathTo cyclic_store (Some 2) (Some 0) = None"
    by code_simp
  from 1 2 cyclic_search 3 show ?thesis by blast
qed

lemma finite_dom_foldl:
  "finite (dom m) \<Longrightarrow> finite (dom (foldl (recordPath h root) m nodes))"
proof (induction nodes arbitrary: m)
  case Nil
  then show ?case by simp
next
  case (Cons node nodes)
  have "finite (dom (recordPath h root m node))"
    using Cons.prems by (auto simp: recordPath_def split: option.splits)
  then show ?case by (simp add: Cons.IH)
qed

lemma finite_dom_nodePaths: "finite (dom (nodePaths h nodes root))"
  unfolding nodePaths_def by (rule finite_dom_foldl) simp

lemma ranges_ex: "finite (dom m) \<Longrightarrow> \<exists>paths. ranges m paths"
proof -
  assume "finite (dom m)"
  from finite_distinct_list [OF this] obtain keys where k: "set keys = dom m \<and> distinct keys" ..
  have "ranges m (map (\<lambda>k. the (m k)) keys)"
    unfolding ranges_def
  proof (rule exI [of _ keys])
    from k show "distinct keys \<and> set keys = dom m \<and>
      map (\<lambda>k. the (m k)) keys = map (\<lambda>k. the (m k)) keys" by simp
  qed
  then show ?thesis by (rule exI)
qed

lemma ranges_set: "ranges m paths \<Longrightarrow> set paths = ran m"
proof -
  assume "ranges m paths"
  then obtain keys where k: "set keys = dom m" and p: "paths = map (\<lambda>k. the (m k)) keys"
    unfolding ranges_def by auto
  have "set paths = (\<lambda>k. the (m k)) ` dom m"
    unfolding p using k by simp
  also have "\<dots> = ran m"
    by (auto simp: ran_def dom_def image_iff) (metis option.sel)
  finally show ?thesis .
qed

lemma shortestOf_member:
  "len = int (length sp) \<and> sp \<in> S \<Longrightarrow> shortestOf paths (len, sp) = (len', sp')
   \<Longrightarrow> len' = int (length sp') \<and> sp' \<in> S \<union> set paths"
proof (induction paths arbitrary: len sp S)
  case Nil
  then show ?case by auto
next
  case (Cons path paths)
  show ?case
  proof (cases "len = - 1 \<or> int (length path) < len")
    case True
    with Cons.prems(2) have "shortestOf paths (int (length path), path) = (len', sp')"
      by simp
    from Cons.IH [of "int (length path)" path "insert path S", OF _ this]
    show ?thesis by auto
  next
    case False
    with Cons.prems(2) have "shortestOf paths (len, sp) = (len', sp')"
      by simp
    from Cons.IH [OF Cons.prems(1) this] show ?thesis by auto
  qed
qed

lemma shortestOf_start:
  assumes "paths \<noteq> []" "shortestOf paths (- 1, []) = (len, sp)"
  shows "len = int (length sp) \<and> sp \<in> set paths"
proof -
  from assms(1) obtain p ps where p: "paths = p # ps"
    by (cases paths) auto
  with assms(2) have "shortestOf ps (int (length p), p) = (len, sp)"
    by simp
  from shortestOf_member [of "int (length p)" p "{p}", OF _ this] p
  show ?thesis by auto
qed

lemma comparePaths_prefix:
  assumes sp: "sp \<in> set paths"
    and i: "i \<le> length (Longest_common_prefix (set paths))"
  shows "comparePaths paths (int (length sp)) sp i acc =
         (if i = length (Longest_common_prefix (set paths)) then acc
          else Some (last (Longest_common_prefix (set paths))))"
  using i
proof (induction "length (Longest_common_prefix (set paths)) - i" arbitrary: i acc)
  case 0
  let ?cp = "Longest_common_prefix (set paths)"
  from 0 have e: "i = length ?cp" by simp
  have ne: "set paths \<noteq> {}" using sp by auto
  show ?case
  proof (cases "i < length sp")
    case False
    then show ?thesis using e by (subst comparePaths.simps) simp
  next
    case True
    have "\<not> list_all (\<lambda>path. \<not> (length path \<le> i \<or> path ! i \<noteq> sp ! i)) paths"
    proof
      assume "list_all (\<lambda>path. \<not> (length path \<le> i \<or> path ! i \<noteq> sp ! i)) paths"
      then have a: "\<forall>path\<in>set paths. i < length path \<and> path ! i = sp ! i"
        by (auto simp: list_all_iff)
      have "\<forall>path\<in>set paths. prefix (?cp @ [sp ! i]) path"
      proof
        fix path assume m: "path \<in> set paths"
        then have "prefix ?cp path" by (rule Longest_common_prefix_prefix)
        then obtain rest where r: "path = ?cp @ rest" by (auto simp: prefix_def)
        with a m e have "rest \<noteq> []" by auto
        then obtain y ys where ys: "rest = y # ys" by (cases rest) auto
        with r e have "path ! i = y" by (simp add: nth_append)
        with a m have "y = sp ! i" by auto
        with r ys show "prefix (?cp @ [sp ! i]) path" by simp
      qed
      with ne have "length (?cp @ [sp ! i]) \<le> length ?cp"
        by (rule Longest_common_prefix_longest)
      then show False by simp
    qed
    then show ?thesis using True e by (subst comparePaths.simps) (simp add: Let_def)
  qed
next
  case (Suc n)
  let ?cp = "Longest_common_prefix (set paths)"
  from Suc.hyps(2) have l: "i < length ?cp" by simp
  have p: "\<forall>path\<in>set paths. prefix ?cp path"
    by (auto intro: Longest_common_prefix_prefix)
  have n: "\<forall>path\<in>set paths. i < length path \<and> path ! i = ?cp ! i"
  proof
    fix path assume "path \<in> set paths"
    with p obtain rest where "path = ?cp @ rest" by (auto simp: prefix_def)
    with l show "i < length path \<and> path ! i = ?cp ! i"
      by (metis length_append nth_append trans_less_add1)
  qed
  with sp have s: "i < length sp" "sp ! i = ?cp ! i" by auto
  from n s have c: "list_all (\<lambda>path. \<not> (length path \<le> i \<or> path ! i \<noteq> sp ! i)) paths"
    by (auto simp: list_all_iff)
  have "comparePaths paths (int (length sp)) sp i acc =
        comparePaths paths (int (length sp)) sp (Suc i) (Some (sp ! i))"
    using s c by (subst comparePaths.simps) (simp add: Let_def)
  also have "\<dots> = (if Suc i = length ?cp then Some (sp ! i) else Some (last ?cp))"
    using Suc.hyps(1) [of "Suc i" "Some (sp ! i)"] Suc.hyps(2) l by simp
  also have "\<dots> = Some (last ?cp)"
  proof (cases "Suc i = length ?cp")
    case True
    then have "?cp \<noteq> []" by auto
    then have "last ?cp = ?cp ! (length ?cp - 1)" by (rule last_conv_nth)
    also from True have "length ?cp - 1 = i" by arith
    finally show ?thesis using True s by simp
  next
    case False
    then show ?thesis by simp
  qed
  finally show ?case using l by simp
qed

lemma compared_result:
  assumes "dom m \<noteq> {}" "ranges m paths" "shortestOf paths (- 1, []) = (len, sp)"
  shows "comparePaths paths len sp 0 None = ancestor_of_paths (ran m)"
proof -
  from assms(2) have s: "set paths = ran m" by (rule ranges_set)
  from assms(1) have "ran m \<noteq> {}" by (auto simp: ran_def dom_def)
  with s have ne: "paths \<noteq> []" by auto
  from shortestOf_start [OF ne assms(3)] have l: "len = int (length sp)" and m: "sp \<in> set paths"
    by simp_all
  from comparePaths_prefix [OF m, of 0 None]
  have "comparePaths paths len sp 0 None =
        (if 0 = length (Longest_common_prefix (set paths)) then None
          else Some (last (Longest_common_prefix (set paths))))"
    unfolding l by simp
  then show ?thesis
    using \<open>ran m \<noteq> {}\<close> unfolding ancestor_of_paths_def s
    by (cases "Longest_common_prefix (ran m)") simp_all
qed

lemma GetCommonAncestor_general:
  assumes "2 \<le> length nodes" "\<not> is_nil h root"
  shows "GetCommonAncestor h nodes root res \<longleftrightarrow>
         res = ancestor_of_paths (ran (nodePaths h nodes root))"
proof
  assume "GetCommonAncestor h nodes root res"
  then show "res = ancestor_of_paths (ran (nodePaths h nodes root))"
  proof (cases rule: GetCommonAncestor.cases)
    case no_nodes
    with assms show ?thesis by simp
  next
    case one_node
    with assms show ?thesis by simp
  next
    case nil_root
    with assms show ?thesis by simp
  next
    case no_paths
    then have "ran (nodePaths h nodes root) = {}"
      by (auto simp: ran_def dom_def)
    with no_paths show ?thesis by (simp add: ancestor_of_paths_def)
  next
    case (compared paths shortestLen shortestPath)
    then show ?thesis by (simp add: compared_result)
  qed
next
  assume r: "res = ancestor_of_paths (ran (nodePaths h nodes root))"
  from assms(1) have n: "length nodes \<noteq> 0" "length nodes \<noteq> 1" by auto
  show "GetCommonAncestor h nodes root res"
  proof (cases "dom (nodePaths h nodes root) = {}")
    case True
    then have "ran (nodePaths h nodes root) = {}"
      by (auto simp: ran_def dom_def)
    with r have "res = None" by (simp add: ancestor_of_paths_def)
    with n assms(2) True show ?thesis by (simp add: GetCommonAncestor.no_paths)
  next
    case False
    obtain paths where p: "ranges (nodePaths h nodes root) paths"
      using ranges_ex [OF finite_dom_nodePaths] by blast
    obtain len sp where s: "shortestOf paths (- 1, []) = (len, sp)"
      by (metis surj_pair)
    from n assms(2) False p s
    have "GetCommonAncestor h nodes root (comparePaths paths len sp 0 None)"
      by (rule GetCommonAncestor.compared)
    then show ?thesis
      using r compared_result [OF False p s] by simp
  qed
qed












lemma anonymous_paths:
  "buildPathTo anonymous_store (Some 3) (Some 0) = None"
  "buildPathTo anonymous_store (Some 2) (Some 0) = None"
  by code_simp+

text \<open>
  Claim C4 as stated fails for nodes that share an identity: the search marks nodes by
  their \<^verbatim>\<open>ID\<close>, so in the scenario built from four nodes with the empty identity neither
  query node gets a path and the result is absent, not the root.
\<close>

theorem equal_identities_counterexample:
  "obj_Children (anonymous_store ! 0) = [Some 1, Some 2]
   \<and> obj_Children (anonymous_store ! 1) = [Some 3]
   \<and> obj_Children (anonymous_store ! 2) = []
   \<and> obj_Children (anonymous_store ! 3) = []
   \<and> buildPathTo anonymous_store (Some 3) (Some 0) = None
   \<and> buildPathTo anonymous_store (Some 2) (Some 0) = None
   \<and> GetCommonAncestor anonymous_store [Some 3, Some 2] (Some 0) None
   \<and> \<not> GetCommonAncestor anonymous_store [Some 3, Some 2] (Some 0) (Some 0)"
proof -
  have c: "obj_Children (anonymous_store ! 0) = [Some 1, Some 2]"
    "obj_Children (anonymous_store ! 1) = [Some 3]"
    "obj_Children (anonymous_store ! 2) = []"
    "obj_Children (anonymous_store ! 3) = []"
    by (simp_all add: anonymous_store_def)
  have l: "length anonymous_store = 4"
    by (simp add: anonymous_store_def)
  have "nodePaths anonymous_store [Some 3, Some 2] (Some 0) = Map.empty"
    by (simp add: nodePaths_def recordPath_def anonymous_paths)
  then have a: "ancestor_of_paths (ran (nodePaths anonymous_store [Some 3, Some 2] (Some 0))) = None"
    by (simp add: ancestor_of_paths_def)
  have n: "\<not> is_nil anonymous_store (Some 0)"
    by (simp add: is_nil_def l)
  have g: "GetCommonAncestor anonymous_store [Some 3, Some 2] (Some 0) res \<longleftrightarrow> res = None" for res
    using GetCommonAncestor_general [of "[Some 3, Some 2]" anonymous_store "Some 0" res] n a
    by simp
  from c anonymous_paths g [of None] g [of "Some 0"] show ?thesis by simp
qed

section \<open>The indices of a converted tree\<close>

lemma parallel_Convert_run:
  "Convert par_converter (Some cst_R) ''go''
     (Inr (NewUAST (Some (uast_of ''1'' File cst_R
        [Some (uast_of ''3'' Function cst_A []), Some (uast_of ''2'' Identifier cst_B [])])) ''go''))
     (par_converter\<lparr>nodeIDCounter := 3\<rparr>)"
proof -
  have "issued (length [''1'', ''2'', ''3'']) par_converter =
           ([''1'', ''2'', ''3''], par_converter\<lparr>nodeIDCounter := 3\<rparr>)"
    by (simp add: issued_tickets par_converter_fields numeral_3_eq_3
        FormatUint_1 FormatUint_2 FormatUint_3)
  with parallel_run show ?thesis by (rule Convert.converted)
qed

lemma once_in_indices:
  assumes "distinct (map ID (preorder root))" "n \<in> set (preorder root)"
  shows "count_list (FindByType (NewUAST root language) (Type n)) n = 1
       \<and> (\<forall>k. k \<noteq> Type n \<longrightarrow> n \<notin> set (FindByType (NewUAST root language) k))
       \<and> (Token n \<noteq> [] \<longrightarrow> count_list (FindByToken (NewUAST root language) (Token n)) n = 1)
       \<and> (\<forall>t. t \<noteq> Token n \<longrightarrow> n \<notin> set (FindByToken (NewUAST root language) t))"
proof -
  have "distinct (preorder root)"
    using assms(1) by (rule distinct_by_ID)
  with assms(2) show ?thesis
    by (auto simp: FindByType_NewUAST FindByToken_NewUAST count_list_filter distinct_count_list)
qed

lemma Convert_distinct:
  assumes "Convert c cst language (Inr u) c'" "length (preorder (Root u)) < 2 ^ 64"
  shows "distinct (map ID (preorder (Root u)))" "u = NewUAST (Root u) language"
proof -
  from Convert_ids(1) [OF assms(1)] distinct_tickets [OF assms(2), of "nodeIDCounter c"]
  show "distinct (map ID (preorder (Root u)))"
    by (metis mset_eq_imp_distinct_iff)
  from assms(1) obtain t where t: "cst = Some t"
    by (cases cst) (auto simp: Convert_nil)
  from assms(1) obtain ids node where "u = NewUAST (Some node) language"
    unfolding t by (auto dest: Convert_root)
  then show "u = NewUAST (Root u) language"
    by (simp add: Root_NewUAST)
qed

text \<open>
  Claim C3. In the container built from a tree, the type index under a kind holds the
  nodes of that kind and no others, each occurrence of a node once, and the token index
  under a token likewise the nodes with that non-empty token; the results of
  \<^verbatim>\<open>FindByType\<close> over all kinds add up to the nodes of the tree, none twice. For a
  converted tree (of fewer than \<open>2\<^sup>6\<^sup>4\<close> nodes, so that identities cannot repeat) the nodes
  are pairwise different, and every node occurs exactly once under its own kind, under no
  other kind, exactly once under its own token when that is not empty, and under no other
  token.
\<close>

theorem indices_hold_every_node_once:
  "mset (FindByType (NewUAST root language) k) =
     filter_mset (\<lambda>n. Type n = k) (mset (preorder root))
   \<and> mset (FindByToken (NewUAST root language) t) =
       filter_mset (\<lambda>n. Token n = t \<and> Token n \<noteq> []) (mset (preorder root))
   \<and> set (FindByType (NewUAST root language) k) = {n \<in> set (preorder root). Type n = k}
   \<and> (\<Sum>k\<in>Type ` set (preorder root). mset (FindByType (NewUAST root language) k)) =
       mset (preorder root)
   \<and> (\<Union>k. set (FindByType (NewUAST root language) k)) = set (preorder root)
   \<and> (Convert c cst language (Inr u) c' \<and> length (preorder (Root u)) < 2 ^ 64 \<longrightarrow>
        distinct (preorder (Root u))
        \<and> distinct (FindByType u k)
        \<and> (\<forall>n\<in>set (preorder (Root u)).
              count_list (FindByType u (Type n)) n = 1
            \<and> (\<forall>k'. k' \<noteq> Type n \<longrightarrow> n \<notin> set (FindByType u k'))
            \<and> (Token n \<noteq> [] \<longrightarrow> count_list (FindByToken u (Token n)) n = 1)
            \<and> (\<forall>t'. t' \<noteq> Token n \<longrightarrow> n \<notin> set (FindByToken u t'))))"
proof -
  have 1: "mset (FindByType (NewUAST root language) k) =
           filter_mset (\<lambda>n. Type n = k) (mset (preorder root))"
    by (simp add: FindByType_NewUAST)
  have 2: "mset (FindByToken (NewUAST root language) t) =
           filter_mset (\<lambda>n. Token n = t \<and> Token n \<noteq> []) (mset (preorder root))"
    by (simp add: FindByToken_NewUAST)
  have 3: "set (FindByType (NewUAST root language) k) = {n \<in> set (preorder root). Type n = k}"
    by (simp add: FindByType_NewUAST)
  have 4: "(\<Sum>k\<in>Type ` set (preorder root). mset (FindByType (NewUAST root language) k)) =
           mset (preorder root)"
    by (simp only: FindByType_NewUAST sum_filter_by_key)
  have 5: "(\<Union>k. set (FindByType (NewUAST root language) k)) = set (preorder root)"
    by (auto simp: FindByType_NewUAST)
  have 6: "Convert c cst language (Inr u) c' \<and> length (preorder (Root u)) < 2 ^ 64 \<longrightarrow>
        distinct (preorder (Root u))
        \<and> distinct (FindByType u k)
        \<and> (\<forall>n\<in>set (preorder (Root u)).
              count_list (FindByType u (Type n)) n = 1
            \<and> (\<forall>k'. k' \<noteq> Type n \<longrightarrow> n \<notin> set (FindByType u k'))
            \<and> (Token n \<noteq> [] \<longrightarrow> count_list (FindByToken u (Token n)) n = 1)
            \<and> (\<forall>t'. t' \<noteq> Token n \<longrightarrow> n \<notin> set (FindByToken u t')))"
  proof
    assume a: "Convert c cst language (Inr u) c' \<and> length (preorder (Root u)) < 2 ^ 64"
    then have d: "distinct (map ID (preorder (Root u)))" and u: "u = NewUAST (Root u) language"
      by (auto dest: Convert_distinct)
    from d have dp: "distinct (preorder (Root u))"
      by (rule distinct_by_ID)
    have df: "distinct (FindByType u k)"
      by (subst u) (simp add: FindByType_NewUAST dp)
    have "\<forall>n\<in>set (preorder (Root u)).
              count_list (FindByType u (Type n)) n = 1
            \<and> (\<forall>k'. k' \<noteq> Type n \<longrightarrow> n \<notin> set (FindByType u k'))
            \<and> (Token n \<noteq> [] \<longrightarrow> count_list (FindByToken u (Token n)) n = 1)
            \<and> (\<forall>t'. t' \<noteq> Token n \<longrightarrow> n \<notin> set (FindByToken u t'))"
    proof
      fix n assume "n \<in> set (preorder (Root u))"
      from once_in_indices [OF d this, of language] u
      show "count_list (FindByType u (Type n)) n = 1
            \<and> (\<forall>k'. k' \<noteq> Type n \<longrightarrow> n \<notin> set (FindByType u k'))
            \<and> (Token n \<noteq> [] \<longrightarrow> count_list (FindByToken u (Token n)) n = 1)
            \<and> (\<forall>t'. t' \<noteq> Token n \<longrightarrow> n \<notin> set (FindByToken u t'))"
        by simp
    qed
    with dp df show "distinct (preorder (Root u))
        \<and> distinct (FindByType u k)
        \<and> (\<forall>n\<in>set (preorder (Root u)).
              count_list (FindByType u (Type n)) n = 1
            \<and> (\<forall>k'. k' \<noteq> Type n \<longrightarrow> n \<notin> set (FindByType u k'))
            \<and> (Token n \<noteq> [] \<longrightarrow> count_list (FindByToken u (Token n)) n = 1)
            \<and> (\<forall>t'. t' \<noteq> Token n \<longrightarrow> n \<notin> set (FindByToken u t')))"
      by (intro conjI)
  qed
  from 1 2 3 4 5 6 show ?thesis by (intro conjI)
qed


theorem indices_hold_every_node_once_witness:
  "Convert par_converter (Some cst_R) ''go''
     (Inr (NewUAST (Some (uast_of ''1'' File cst_R
        [Some (uast_of ''3'' Function cst_A []), Some (uast_of ''2'' Identifier cst_B [])])) ''go''))
     (par_converter\<lparr>nodeIDCounter := 3\<rparr>)
   \<and> FindByType (NewUAST (Some (uast_of ''1'' File cst_R
        [Some (uast_of ''3'' Function cst_A []), Some (uast_of ''2'' Identifier cst_B [])])) ''go'')
        Function = [uast_of ''3'' Function cst_A []]
   \<and> count_list (FindByType (NewUAST (Some (uast_of ''1'' File cst_R
        [Some (uast_of ''3'' Function cst_A []), Some (uast_of ''2'' Identifier cst_B [])])) ''go'')
        Function) (uast_of ''3'' Function cst_A []) = 1
   \<and> count_list (FindByToken (NewUAST (Some (uast_of ''1'' File cst_R
        [Some (uast_of ''3'' Function cst_A []), Some (uast_of ''2'' Identifier cst_B [])])) ''go'')
        ''main'') (uast_of ''3'' Function cst_A []) = 1"
proof -
  let ?f = "uast_of ''3'' Function cst_A []"
  let ?n = "uast_of ''1'' File cst_R [Some ?f, Some (uast_of ''2'' Identifier cst_B [])]"
  let ?u = "NewUAST (Some ?n) ''go''"
  have p: "preorder (Root ?u) = [?n, ?f, uast_of ''2'' Identifier cst_B []]"
    by (simp add: Root_NewUAST uast_of_def)
  have k: "length (preorder (Root ?u)) < 2 ^ 64"
    unfolding p by simp
  have m: "?f \<in> set (preorder (Root ?u))"
    unfolding p by simp
  have ty: "Type ?f = Function" and tk: "Token ?f = ''main''" "Token ?f \<noteq> []"
    by (simp_all add: uast_of_def cst_A_def)
  note T = indices_hold_every_node_once [where c = par_converter and cst = "Some cst_R"
      and language = "''go''" and u = ?u and c' = "par_converter\<lparr>nodeIDCounter := 3\<rparr>"
      and k = Function,
      THEN conjunct2, THEN conjunct2, THEN conjunct2, THEN conjunct2, THEN conjunct2,
      rule_format, OF conjI, OF parallel_Convert_run k]
  from T [THEN conjunct2, THEN conjunct2, THEN bspec, OF m]
  have c: "count_list (FindByType ?u Function) ?f = 1"
    and t: "count_list (FindByToken ?u ''main'') ?f = 1"
    unfolding ty tk(1) using tk(2) unfolding tk(1) by simp_all
  have f: "FindByType ?u Function = [?f]"
    by (simp add: FindByType_NewUAST uast_of_def cst_R_def cst_A_def cst_B_def NodeType_defs)
  from parallel_Convert_run f c t show ?thesis by (intro conjI)
qed


end
